theory Spec2Isabelle
  imports Complex_Main "HOL-Library.Word" "HOL-Library.Sublist" "HOL-Library.AList"
begin

section \<open>Python values used by the forensic parser\<close>

text \<open>
  Bytes are 8-bit words, Python integers are unbounded \<open>int\<close>s, Python strings are
  \<open>string\<close>s. An exception is a value; a method of the parser object returns its outcome
  (an exception or a result) together with the object after the call.
\<close>

type_synonym byte = "8 word"

datatype py_exception =
    ValueError string
  | OSError string
  | SqliteError string
  | BinasciiError string
  | ZeroDivisionError string
  | AttributeError string
  | OverflowError string
  | MemoryError string

text \<open>Python's \<open>xs[i:j]\<close> for non-negative \<open>i\<close> and \<open>j\<close>.\<close>

definition py_slice :: "'a list \<Rightarrow> nat \<Rightarrow> nat \<Rightarrow> 'a list" where
  "py_slice xs i j = take (j - i) (drop i xs)"

text \<open>\<open>struct.unpack('>H', b)[0]\<close> and \<open>struct.unpack('>I', b)[0]\<close>: big-endian unsigned.\<close>

definition be_uint :: "byte list \<Rightarrow> int" where
  "be_uint bs = fold (\<lambda>b acc. acc * 256 + uint b) bs 0"

text \<open>Lower-case hexadecimal digits, \<open>binascii.hexlify(b).decode('ascii')\<close> and \<open>hex(n)\<close>.\<close>

definition hex_digit :: "nat \<Rightarrow> char" where
  "hex_digit n = ''0123456789abcdef'' ! (n mod 16)"

definition hex_pair :: "byte \<Rightarrow> string" where
  "hex_pair b = [hex_digit (unat b div 16), hex_digit (unat b mod 16)]"

definition hexlify :: "byte list \<Rightarrow> string" where
  "hexlify bs = concat (map hex_pair bs)"

function hex_digits :: "nat \<Rightarrow> string" where
  "hex_digits n = (if n < 16 then [hex_digit n] else hex_digits (n div 16) @ [hex_digit (n mod 16)])"
  by pat_completeness auto
termination
  by (relation "measure id") auto

definition hex :: "int \<Rightarrow> string" where
  "hex n = (if n < 0 then ''-0x'' @ hex_digits (nat (- n)) else ''0x'' @ hex_digits (nat n))"




text \<open>\<open>chr(b) if 32 <= b <= 126 else '.'\<close>, joined over a block of bytes.\<close>

definition ascii_or_dot :: "byte \<Rightarrow> char" where
  "ascii_or_dot b = (if 32 \<le> b \<and> b \<le> 126 then char_of (unat b) else CHR ''.'')"

definition ascii_repr :: "byte list \<Rightarrow> string" where
  "ascii_repr bs = map ascii_or_dot bs"

section \<open>The relational engine behind a connection\<close>

text \<open>
  The sqlite3 library is not part of the repository. A connection is modelled by what it
  answers: each statement the parser executes is a function from the statement text (and
  its bound parameters) to either an \<open>sqlite3.Error\<close> message or rows of the shape that
  statement yields: \<open>sqlite_master\<close> rows for the catalog queries, column rows for
  \<open>PRAGMA table_info\<close>, one integer for \<open>COUNT(*)\<close> and \<open>PRAGMA freelist_count\<close>, and
  rows of named values otherwise. Floating-point column values are left out of
  \<open>sql_value\<close>; no modelled method looks inside a value.
\<close>

datatype sql_value = SqlNull | SqlInt int | SqlText string | SqlBlob "byte list"

type_synonym sql_row = "(string \<times> sql_value) list"

record column_row =
  cr_name :: string
  cr_type :: string
  cr_notnull :: int
  cr_dflt_value :: sql_value
  cr_pk :: int

record master_row =
  mr_name :: string
  mr_tbl_name :: string
  mr_sql :: "string option"

record db =
  exec_master :: "string \<Rightarrow> string list \<Rightarrow> string + master_row list"
  exec_table_info :: "string \<Rightarrow> string + column_row list"
  exec_scalar :: "string \<Rightarrow> string list \<Rightarrow> string + int"
  exec_rows :: "string \<Rightarrow> string list \<Rightarrow> string + sql_row list"

section \<open>The parser object\<close>

text \<open>
  The schema catalog that \<open>extract_schema\<close> builds. Python dictionaries keep insertion
  order, so a dictionary is an association list, read with \<open>map_of\<close> and written with
  \<open>AList.update\<close> (a new key goes to the end, an existing key keeps its place). A key that
  a dictionary may lack (\<open>'indices'\<close>, \<open>'triggers'\<close>) is an \<open>option\<close>.
\<close>

record column =
  c_name :: string
  c_type :: string
  c_not_null :: bool
  c_default_value :: sql_value
  c_primary_key :: bool

record object_ref =
  o_name :: string
  o_sql :: "string option"

record table_entry =
  t_sql :: "string option"
  t_columns :: "column list"
  t_row_count :: int
  t_sample_rows :: "sql_row list"
  t_indices :: "object_ref list option"
  t_triggers :: "object_ref list option"

record owner_ref =
  r_table :: string
  r_sql :: "string option"

record schema_catalog =
  tables :: "(string \<times> table_entry) list"
  indices :: "(string \<times> owner_ref) list"
  triggers :: "(string \<times> owner_ref) list"

record header_fields =
  h_signature :: string
  h_page_size :: int
  h_file_format_write_version :: int
  h_file_format_read_version :: int
  h_reserved_space :: int
  h_max_payload_fraction :: int
  h_min_payload_fraction :: int
  h_leaf_payload_fraction :: int
  h_file_change_counter :: int
  h_database_size_pages :: int
  h_first_freelist_trunk_page :: int
  h_total_freelist_pages :: int
  h_schema_cookie :: int
  h_schema_format :: int
  h_default_page_cache_size :: int
  h_largest_root_btree_page :: int
  h_text_encoding :: string
  h_user_version :: int
  h_vacuum_mode :: int
  h_application_id :: string
  h_version_valid_for :: int
  h_sqlite_version_number :: int

text \<open>
  The fields of \<open>SqliteForensicParser\<close> that the modelled methods read or write, together
  with the things outside the object that they consult: the bytes of the file at
  \<open>db_path\<close> (\<open>None\<close> when the file cannot be opened), the engine that
  \<open>sqlite3.connect\<close> would hand back (\<open>None\<close> when connecting raises), the largest
  offset that the file system lets \<open>seek\<close> move to, and the largest length for which
  \<open>read\<close> can get its buffer. The two limits differ from one machine to the next;
  \<open>init_parser\<close> takes those of an ext4 file system with 4 KiB blocks (offsets up to
  \<open>2^44 - 4096\<close>) and of a machine with room for a buffer of 8 GiB.
\<close>

record parser =
  db_path :: string
  file_size :: int
  header_data :: "header_fields option"
  page_size :: int
  encoding :: "string option"
  user_version :: int
  application_id :: int
  schema_version :: int
  schema :: "schema_catalog option"
  artifact_type :: "string option"
  connection :: "db option"
  disk :: "byte list option"
  provider :: "db option"
  seek_limit :: int
  read_limit :: int

definition init_parser :: "string \<Rightarrow> byte list option \<Rightarrow> db option \<Rightarrow> parser" where
  "init_parser path content engine =
     \<lparr> db_path = path,
       file_size = (case content of None \<Rightarrow> 0 | Some data \<Rightarrow> int (length data)),
       header_data = None,
       page_size = 0,
       encoding = None,
       user_version = 0,
       application_id = 0,
       schema_version = 0,
       schema = None,
       artifact_type = None,
       connection = None,
       disk = content,
       provider = engine,
       seek_limit = 17592186040320,
       read_limit = 8589934592 \<rparr>"

section \<open>Header decoding\<close>

definition SQLITE_SIGNATURE :: "byte list" where
  "SQLITE_SIGNATURE =
     [0x53, 0x51, 0x4C, 0x69, 0x74, 0x65, 0x20, 0x66, 0x6F, 0x72, 0x6D, 0x61, 0x74, 0x20, 0x33, 0x00]"

definition too_small_msg :: string where
  "too_small_msg = ''File too small to be a valid SQLite database''"

definition bad_signature_msg :: string where
  "bad_signature_msg = ''Not a valid SQLite database (incorrect signature)''"

definition decode_encoding :: "byte \<Rightarrow> string" where
  "decode_encoding b =
     (if b = 1 then ''UTF-8'' else if b = 2 then ''UTF-16le'' else if b = 3 then ''UTF-16be''
      else ''Unknown'')"

definition decode_page_size :: "byte list \<Rightarrow> int" where
  "decode_page_size header =
     (let raw = be_uint (py_slice header 16 18) in if raw = 1 then 65536 else raw)"

definition parse_header :: "parser \<Rightarrow> (py_exception + header_fields) \<times> parser" where
  "parse_header self =
     (case disk self of
        None \<Rightarrow> (Inl (OSError ''cannot open file''), self)
      | Some data \<Rightarrow>
          let header = take 100 data in
          if length header < 100 then (Inl (ValueError too_small_msg), self)
          else if \<not> prefix SQLITE_SIGNATURE header then (Inl (ValueError bad_signature_msg), self)
          else
            let self1 = self\<lparr>page_size := decode_page_size header\<rparr>;
                self2 = self1\<lparr>encoding := Some (decode_encoding (header ! 56))\<rparr>;
                self3 = self2\<lparr>user_version := be_uint (py_slice header 60 64)\<rparr>;
                self4 = self3\<lparr>application_id := be_uint (py_slice header 68 72)\<rparr>;
                self5 = self4\<lparr>schema_version := be_uint (py_slice header 96 100)\<rparr>;
                fields =
                  \<lparr> h_signature = hexlify (py_slice header 0 16),
                    h_page_size = page_size self5,
                    h_file_format_write_version = uint (header ! 18),
                    h_file_format_read_version = uint (header ! 19),
                    h_reserved_space = uint (header ! 20),
                    h_max_payload_fraction = uint (header ! 21),
                    h_min_payload_fraction = uint (header ! 22),
                    h_leaf_payload_fraction = uint (header ! 23),
                    h_file_change_counter = be_uint (py_slice header 24 28),
                    h_database_size_pages = be_uint (py_slice header 28 32),
                    h_first_freelist_trunk_page = be_uint (py_slice header 32 36),
                    h_total_freelist_pages = be_uint (py_slice header 36 40),
                    h_schema_cookie = be_uint (py_slice header 40 44),
                    h_schema_format = uint (header ! 44),
                    h_default_page_cache_size = be_uint (py_slice header 48 52),
                    h_largest_root_btree_page = be_uint (py_slice header 52 56),
                    h_text_encoding = the (encoding self5),
                    h_user_version = user_version self5,
                    h_vacuum_mode = be_uint (py_slice header 64 68),
                    h_application_id = hex (application_id self5),
                    h_version_valid_for = be_uint (py_slice header 92 96),
                    h_sqlite_version_number = schema_version self5 \<rparr>
            in (Inr fields, self5\<lparr>header_data := Some fields\<rparr>))"

section \<open>Byte inspection: hex dump\<close>

text \<open>\<open>sep.join(parts)\<close>.\<close>

fun str_join :: "string \<Rightarrow> string list \<Rightarrow> string" where
  "str_join sep [] = []"
| "str_join sep [x] = x"
| "str_join sep (x # y # ys) = x @ sep @ str_join sep (y # ys)"

text \<open>
  \<open>f.seek(offset)\<close> followed by \<open>f.read(length)\<close> on a file opened with \<open>'rb'\<close>. The
  seek raises \<open>ValueError\<close> for an offset that does not fit 64 signed bits and \<open>OSError\<close>
  for a negative offset or one beyond the limit of the file system; any other offset is
  accepted, also one past the end of the file. The read raises \<open>OverflowError\<close> for a
  length that does not fit 64 signed bits, \<open>ValueError\<close> for a length below \<open>-1\<close>, and
  \<open>MemoryError\<close> for a length beyond what a buffer can be had for (for lengths close to
  \<open>2^63\<close> the exception is an \<open>OverflowError\<close> instead); the length \<open>-1\<close> reads
  everything up to the end of the file, any other length at most that many bytes.
\<close>

definition file_seek_read ::
  "byte list \<Rightarrow> int \<Rightarrow> int \<Rightarrow> int \<Rightarrow> int \<Rightarrow> py_exception + byte list" where
  "file_seek_read content max_offset max_length offset len =
     (if offset < - (2 ^ 63) \<or> 2 ^ 63 \<le> offset
        then Inl (ValueError ''cannot fit 'int' into an offset-sized integer'')
      else if offset < 0 \<or> max_offset < offset
        then Inl (OSError ''[Errno 22] Invalid argument'')
      else if len < - (2 ^ 63) \<or> 2 ^ 63 \<le> len
        then Inl (OverflowError ''cannot fit 'int' into an index-sized integer'')
      else if len < - 1
        then Inl (ValueError ''read length must be non-negative or -1'')
      else let rest = drop (nat offset) content
           in if len = - 1 then Inr rest
              else if max_length < len then Inl (MemoryError [])
              else Inr (take (nat len) rest))"

definition exception_str :: "py_exception \<Rightarrow> string" where
  "exception_str e =
     (case e of ValueError m \<Rightarrow> m | OSError m \<Rightarrow> m | SqliteError m \<Rightarrow> m
      | BinasciiError m \<Rightarrow> m | ZeroDivisionError m \<Rightarrow> m | AttributeError m \<Rightarrow> m
      | OverflowError m \<Rightarrow> m | MemoryError m \<Rightarrow> m)"

record hex_dump =
  hd_offset :: int
  hd_length :: int
  hd_hex_data :: "string list"
  hd_ascii_data :: "string list"
  hd_error :: "string option"

text \<open>The rows \<open>data[i:i+16] for i in range(0, len(data), 16)\<close>.\<close>

definition rows16 :: "byte list \<Rightarrow> byte list list" where
  "rows16 data = map (\<lambda>k. py_slice data (16 * k) (16 * k + 16)) [0 ..< (length data + 15) div 16]"

definition hex_formatted :: "byte list \<Rightarrow> string" where
  "hex_formatted row_data =
     (let hex_row = hexlify row_data
      in str_join '' '' (map (\<lambda>j. py_slice hex_row (2 * j) (2 * j + 2))
                           [0 ..< (length hex_row + 1) div 2]))"

definition get_hex_dump :: "parser \<Rightarrow> int \<Rightarrow> int \<Rightarrow> hex_dump" where
  "get_hex_dump self offset len =
     (let result = \<lparr> hd_offset = offset, hd_length = len, hd_hex_data = [],
                      hd_ascii_data = [], hd_error = None \<rparr>
      in case disk self of
           None \<Rightarrow> result\<lparr>hd_error := Some ''[Errno 2] No such file or directory''\<rparr>
         | Some content \<Rightarrow>
             (case file_seek_read content (seek_limit self) (read_limit self) offset len of
                Inl e \<Rightarrow> result\<lparr>hd_error := Some (exception_str e)\<rparr>
              | Inr data \<Rightarrow>
                  result\<lparr>hd_hex_data := map hex_formatted (rows16 data),
                         hd_ascii_data := map ascii_repr (rows16 data)\<rparr>))"

section \<open>Byte inspection: hex-pattern search\<close>

text \<open>
  \<open>binascii.unhexlify\<close> on a string: the string must be ASCII, of even length, and made of
  hexadecimal digits of either case.
\<close>

definition hex_value :: "char \<Rightarrow> nat option" where
  "hex_value c =
     (let n = (of_char c :: nat)
      in if 48 \<le> n \<and> n \<le> 57 then Some (n - 48)
         else if 97 \<le> n \<and> n \<le> 102 then Some (n - 87)
         else if 65 \<le> n \<and> n \<le> 70 then Some (n - 55)
         else None)"

fun unhex_pairs :: "string \<Rightarrow> py_exception + byte list" where
  "unhex_pairs (a # b # cs) =
     (case (hex_value a, hex_value b) of
        (Some hi, Some lo) \<Rightarrow>
          (case unhex_pairs cs of Inl e \<Rightarrow> Inl e | Inr bs \<Rightarrow> Inr (of_nat (hi * 16 + lo) # bs))
      | _ \<Rightarrow> Inl (BinasciiError ''Non-hexadecimal digit found''))"
| "unhex_pairs _ = Inr []"

definition unhexlify :: "string \<Rightarrow> py_exception + byte list" where
  "unhexlify s =
     (if \<exists>c \<in> set s. 128 \<le> (of_char c :: nat)
        then Inl (ValueError ''string argument should contain only ASCII characters'')
      else if odd (length s) then Inl (BinasciiError ''Odd-length string'')
      else unhex_pairs s)"

text \<open>
  \<open>data.find(sub, start)\<close> for \<open>start \<ge> 0\<close>: the lowest index \<open>i \<ge> start\<close> with
  \<open>data[i:i+len(sub)] == sub\<close>, \<open>None\<close> standing for \<open>-1\<close>. \<open>find_at\<close> walks the rest of the
  data, \<open>i\<close> being the index of its first byte.
\<close>

fun find_at :: "byte list \<Rightarrow> byte list \<Rightarrow> nat \<Rightarrow> nat option" where
  "find_at [] sub i = (if sub = [] then Some i else None)"
| "find_at (x # xs) sub i = (if prefix sub (x # xs) then Some i else find_at xs sub (Suc i))"

definition bytes_find :: "byte list \<Rightarrow> byte list \<Rightarrow> nat \<Rightarrow> nat option" where
  "bytes_find data sub start =
     (if length data < start then None else find_at (drop start data) sub start)"

datatype search_result =
    Match (m_offset: nat) (m_offset_hex: string) (m_context: string) (m_context_ascii: string)
  | SearchError string

definition context_data :: "byte list \<Rightarrow> byte list \<Rightarrow> nat \<Rightarrow> byte list" where
  "context_data data search_bytes offset =
     (let context_start = max 0 (int offset - 16);
          context_end = min (int (length data)) (int offset + int (length search_bytes) + 16)
      in py_slice data (nat context_start) (nat context_end))"

definition make_match :: "byte list \<Rightarrow> byte list \<Rightarrow> nat \<Rightarrow> search_result" where
  "make_match data search_bytes offset =
     Match offset (hex (int offset)) (hexlify (context_data data search_bytes offset))
       (ascii_repr (context_data data search_bytes offset))"

text \<open>
  The \<open>while True\<close> loop. It has no bound of its own, so it is a partial function: \<open>None\<close>
  is the loop that never leaves.
\<close>

partial_function (option) find_loop ::
  "byte list \<Rightarrow> byte list \<Rightarrow> nat \<Rightarrow> search_result list \<Rightarrow> search_result list option" where
  "find_loop data search_bytes offset results =
     (case bytes_find data search_bytes offset of
        None \<Rightarrow> Some results
      | Some found \<Rightarrow>
          find_loop data search_bytes (found + length search_bytes)
            (results @ [make_match data search_bytes found]))"

declare find_loop.simps [code]

definition find_hex_pattern :: "parser \<Rightarrow> string \<Rightarrow> search_result list option" where
  "find_hex_pattern self pattern =
     (case unhexlify pattern of
        Inl e \<Rightarrow> Some [SearchError (exception_str e)]
      | Inr search_bytes \<Rightarrow>
          (case disk self of
             None \<Rightarrow> Some [SearchError ''[Errno 2] No such file or directory'']
           | Some data \<Rightarrow> find_loop data search_bytes 0 []))"

section \<open>Schema extraction\<close>

definition connect_to_db :: "parser \<Rightarrow> bool \<times> parser" where
  "connect_to_db self =
     (case provider self of
        Some engine \<Rightarrow> (True, self\<lparr>connection := Some engine\<rparr>)
      | None \<Rightarrow> (False, self\<lparr>connection := None\<rparr>))"

text \<open>\<open>s.startswith(p)\<close>.\<close>

definition startswith :: "string \<Rightarrow> string \<Rightarrow> bool" where
  "startswith s p = prefix p s"

text \<open>\<open>{key: row[key] for key in row.keys()}\<close>.\<close>

definition row_to_dict :: "sql_row \<Rightarrow> sql_row" where
  "row_to_dict row =
     fold (\<lambda>key d. case map_of row key of None \<Rightarrow> d | Some v \<Rightarrow> AList.update key v d)
       (map fst row) []"

definition table_query :: string where
  "table_query = ''SELECT name, sql FROM sqlite_master WHERE type='table'' @ [CHR 0x27]"

definition index_query :: string where
  "index_query = ''SELECT name, tbl_name, sql FROM sqlite_master WHERE type='index'' @ [CHR 0x27]"

definition trigger_query :: string where
  "trigger_query = ''SELECT name, tbl_name, sql FROM sqlite_master WHERE type='trigger'' @ [CHR 0x27]"

text \<open>
  The body of the \<open>try\<close> for one table: \<open>Inl\<close> is the \<open>sqlite3.Error\<close> that makes the
  loop \<open>continue\<close>. The inner \<open>try\<close> around the sample query swallows its error.
\<close>

definition read_table :: "db \<Rightarrow> master_row \<Rightarrow> string + table_entry" where
  "read_table cursor row =
     (let table_name = mr_name row in
      case exec_table_info cursor (''PRAGMA table_info('' @ table_name @ '')'') of
        Inl e \<Rightarrow> Inl e
      | Inr column_info \<Rightarrow>
          let columns = map (\<lambda>col. \<lparr> c_name = cr_name col, c_type = cr_type col,
                                      c_not_null = (cr_notnull col \<noteq> 0),
                                      c_default_value = cr_dflt_value col,
                                      c_primary_key = (cr_pk col \<noteq> 0) \<rparr>) column_info
          in case exec_scalar cursor (''SELECT COUNT(*) FROM '' @ table_name) [] of
               Inl e \<Rightarrow> Inl e
             | Inr row_count \<Rightarrow>
                 let sample_rows =
                       (if row_count > 0
                        then (case exec_rows cursor (''SELECT * FROM '' @ table_name @ '' LIMIT 5'') [] of
                                Inl e \<Rightarrow> []
                              | Inr sample_data \<Rightarrow> map row_to_dict sample_data)
                        else [])
                 in Inr \<lparr> t_sql = mr_sql row, t_columns = columns, t_row_count = row_count,
                          t_sample_rows = sample_rows, t_indices = None, t_triggers = None \<rparr>)"

fun table_loop ::
  "db \<Rightarrow> master_row list \<Rightarrow> (string \<times> table_entry) list \<Rightarrow> (string \<times> table_entry) list" where
  "table_loop cursor [] tabs = tabs"
| "table_loop cursor (row # rows) tabs =
     (if startswith (mr_name row) ''sqlite_'' then table_loop cursor rows tabs
      else case read_table cursor row of
             Inl e \<Rightarrow> table_loop cursor rows tabs
           | Inr entry \<Rightarrow> table_loop cursor rows (AList.update (mr_name row) entry tabs))"

definition add_index :: "master_row \<Rightarrow> (string \<times> table_entry) list \<Rightarrow> (string \<times> table_entry) list" where
  "add_index row tabs =
     (case map_of tabs (mr_tbl_name row) of
        None \<Rightarrow> tabs
      | Some entry \<Rightarrow>
          AList.update (mr_tbl_name row)
            (entry\<lparr>t_indices :=
                     Some ((case t_indices entry of None \<Rightarrow> [] | Some xs \<Rightarrow> xs)
                           @ [\<lparr> o_name = mr_name row, o_sql = mr_sql row \<rparr>])\<rparr>) tabs)"

definition add_trigger :: "master_row \<Rightarrow> (string \<times> table_entry) list \<Rightarrow> (string \<times> table_entry) list" where
  "add_trigger row tabs =
     (case map_of tabs (mr_tbl_name row) of
        None \<Rightarrow> tabs
      | Some entry \<Rightarrow>
          AList.update (mr_tbl_name row)
            (entry\<lparr>t_triggers :=
                     Some ((case t_triggers entry of None \<Rightarrow> [] | Some xs \<Rightarrow> xs)
                           @ [\<lparr> o_name = mr_name row, o_sql = mr_sql row \<rparr>])\<rparr>) tabs)"

fun index_loop ::
  "master_row list \<Rightarrow> (string \<times> table_entry) list \<Rightarrow> (string \<times> owner_ref) list
     \<Rightarrow> (string \<times> table_entry) list \<times> (string \<times> owner_ref) list" where
  "index_loop [] tabs inds = (tabs, inds)"
| "index_loop (row # rows) tabs inds =
     (if startswith (mr_name row) ''sqlite_'' then index_loop rows tabs inds
      else index_loop rows (add_index row tabs)
             (AList.update (mr_name row) \<lparr> r_table = mr_tbl_name row, r_sql = mr_sql row \<rparr> inds))"

fun trigger_loop ::
  "master_row list \<Rightarrow> (string \<times> table_entry) list \<Rightarrow> (string \<times> owner_ref) list
     \<Rightarrow> (string \<times> table_entry) list \<times> (string \<times> owner_ref) list" where
  "trigger_loop [] tabs trigs = (tabs, trigs)"
| "trigger_loop (row # rows) tabs trigs =
     trigger_loop rows (add_trigger row tabs)
       (AList.update (mr_name row) \<lparr> r_table = mr_tbl_name row, r_sql = mr_sql row \<rparr> trigs)"

text \<open>
  \<open>extract_schema\<close> returns \<open>{}\<close> (here \<open>None\<close>) when no connection can be had; the three
  catalog queries are outside any \<open>try\<close>, so their \<open>sqlite3.Error\<close> leaves the method.
\<close>

definition extract_schema :: "parser \<Rightarrow> (py_exception + schema_catalog option) \<times> parser" where
  "extract_schema self =
     (let self1 = (if connection self = None then snd (connect_to_db self) else self) in
      case connection self1 of
        None \<Rightarrow> (Inr None, self1)
      | Some cursor \<Rightarrow>
          (case exec_master cursor table_query [] of
             Inl e \<Rightarrow> (Inl (SqliteError e), self1)
           | Inr table_rows \<Rightarrow>
               let tabs = table_loop cursor table_rows [] in
               (case exec_master cursor index_query [] of
                  Inl e \<Rightarrow> (Inl (SqliteError e), self1)
                | Inr index_rows \<Rightarrow>
                    let (tabs1, inds) = index_loop index_rows tabs [] in
                    (case exec_master cursor trigger_query [] of
                       Inl e \<Rightarrow> (Inl (SqliteError e), self1)
                     | Inr trigger_rows \<Rightarrow>
                         let (tabs2, trigs) = trigger_loop trigger_rows tabs1 [];
                             catalog = \<lparr> tables = tabs2, indices = inds, triggers = trigs \<rparr>
                         in (Inr (Some catalog), self1\<lparr>schema := Some catalog\<rparr>)))))"

section \<open>Artifact classification\<close>










section \<open>Deletion signals\<close>



section \<open>Table browsing\<close>








section \<open>What a left-to-right, non-overlapping scan reports\<close>

text \<open>
  \<open>occurs_at data sub j\<close>: the pattern stands at offset \<open>j\<close>, that is
  \<open>data[j:j+len(sub)] == sub\<close>. \<open>leftmost_scan data sub start offs\<close>: \<open>offs\<close> is what a
  scan from \<open>start\<close> reports when it always takes the first occurrence at or after its
  cursor and then moves the cursor past that occurrence.
\<close>

definition occurs_at :: "byte list \<Rightarrow> byte list \<Rightarrow> nat \<Rightarrow> bool" where
  "occurs_at data sub j = (py_slice data j (j + length sub) = sub)"

fun leftmost_scan :: "byte list \<Rightarrow> byte list \<Rightarrow> nat \<Rightarrow> nat list \<Rightarrow> bool" where
  "leftmost_scan data sub start [] = (\<forall>k \<in> {start..length data}. \<not> occurs_at data sub k)"
| "leftmost_scan data sub start (j # js) =
     (start \<le> j \<and> occurs_at data sub j \<and> (\<forall>k \<in> {start..<j}. \<not> occurs_at data sub k) \<and>
      leftmost_scan data sub (j + length sub) js)"

section \<open>Example inputs\<close>

text \<open>
  Two 100-byte headers, one with the raw page size 4096 and one with the raw page size 1;
  files of zero bytes; and parser objects created on them.
\<close>

definition header_4096 :: "byte list" where
  "header_4096 = SQLITE_SIGNATURE @ [0x10, 0x00] @ replicate 82 0"

definition header_raw_1 :: "byte list" where
  "header_raw_1 = SQLITE_SIGNATURE @ [0x00, 0x01] @ replicate 82 0"

definition zero_file_50 :: parser where
  "zero_file_50 = init_parser ''evidence/short.db'' (Some (replicate 50 0)) None"

definition zero_file_100 :: parser where
  "zero_file_100 = init_parser ''evidence/zeros.db'' (Some (replicate 100 0)) None"

definition parser_4096 :: parser where
  "parser_4096 = init_parser ''evidence/a.db'' (Some header_4096) None"

definition parser_raw_1 :: parser where
  "parser_raw_1 = init_parser ''evidence/b.db'' (Some header_raw_1) None"

text \<open>
  A six-byte file in which the two-byte pattern \<open>00 00\<close> stands at the offsets 0, 1 and 4.
\<close>

definition overlap_parser :: parser where
  "overlap_parser = init_parser ''evidence/overlap.bin'' (Some [0, 0, 0, 1, 0, 0]) None"

text \<open>The signature as the hex string that a search for it is given.\<close>

definition signature_hex :: string where
  "signature_hex = ''53514c69746520666f726d6174203300''"








text \<open>
  An engine behind a damaged database: the table \<open>bad\<close> cannot be introspected, no sample
  can be read from any table, and a trigger carries the engine-internal prefix.
\<close>

definition damaged_engine :: db where
  "damaged_engine =
     \<lparr> exec_master = (\<lambda>sql params.
         if sql = table_query then
           Inr [ \<lparr> mr_name = ''good'', mr_tbl_name = ''good'', mr_sql = Some ''CREATE TABLE good (id)'' \<rparr>,
                 \<lparr> mr_name = ''bad'', mr_tbl_name = ''bad'', mr_sql = None \<rparr>,
                 \<lparr> mr_name = ''sqlite_sequence'', mr_tbl_name = ''sqlite_sequence'', mr_sql = None \<rparr>,
                 \<lparr> mr_name = ''later'', mr_tbl_name = ''later'', mr_sql = Some ''CREATE TABLE later (id)'' \<rparr> ]
         else if sql = index_query then
           Inr [ \<lparr> mr_name = ''sqlite_autoindex_good_1'', mr_tbl_name = ''good'', mr_sql = None \<rparr>,
                 \<lparr> mr_name = ''idx_good'', mr_tbl_name = ''good'', mr_sql = Some ''CREATE INDEX idx_good'' \<rparr> ]
         else if sql = trigger_query then
           Inr [ \<lparr> mr_name = ''sqlite_trg'', mr_tbl_name = ''good'', mr_sql = Some ''CREATE TRIGGER sqlite_trg'' \<rparr> ]
         else Inl ''not an sqlite_master query''),
       exec_table_info = (\<lambda>sql.
         if sql = ''PRAGMA table_info(bad)'' then Inl ''malformed database schema (bad)''
         else Inr [ \<lparr> cr_name = ''id'', cr_type = ''INTEGER'', cr_notnull = 0,
                      cr_dflt_value = SqlNull, cr_pk = 1 \<rparr> ]),
       exec_scalar = (\<lambda>sql params. if sql = ''SELECT COUNT(*) FROM good'' then Inr 2 else Inr 0),
       exec_rows = (\<lambda>sql params. Inl ''database disk image is malformed'') \<rparr>"

definition damaged_parser :: parser where
  "damaged_parser = init_parser ''evidence/damaged.db'' (Some header_4096) (Some damaged_engine)"



section \<open>Properties of header decoding\<close>

lemma prefix_take_eq: "prefix xs ys \<longleftrightarrow> take (length xs) ys = xs"
  by (metis append_eq_conv_conj prefix_def take_is_prefix)

lemma length_SQLITE_SIGNATURE: "length SQLITE_SIGNATURE = 16"
  by (simp add: SQLITE_SIGNATURE_def)

lemma zeros_not_signature: "take 16 (replicate n (0 :: byte)) \<noteq> SQLITE_SIGNATURE"
proof -
  have "83 \<in> set SQLITE_SIGNATURE" by (simp add: SQLITE_SIGNATURE_def)
  moreover have "set (take 16 (replicate n (0 :: byte))) \<subseteq> {0}"
    using set_take_subset [of 16 "replicate n (0 :: byte)"] by auto
  ultimately show ?thesis by auto
qed

lemma signature_check:
  assumes "100 \<le> length data"
  shows "prefix SQLITE_SIGNATURE (take 100 data) \<longleftrightarrow> take 16 data = SQLITE_SIGNATURE"
  using assms by (simp add: prefix_take_eq length_SQLITE_SIGNATURE min_def)

lemma slice_two:
  assumes "i + 2 \<le> length xs"
  shows "py_slice xs i (i + 2) = [xs ! i, xs ! Suc i]"
proof -
  have "take 2 (drop i xs) = [drop i xs ! 0, drop i xs ! 1]"
    using assms
    by (cases "drop i xs"; cases "tl (drop i xs)") (auto dest: arg_cong [where f = length])
  then show ?thesis using assms by (simp add: py_slice_def)
qed

lemma raw_page_size:
  assumes "100 \<le> length data"
  shows "be_uint (py_slice (take 100 data) 16 18) = uint (data ! 16) * 256 + uint (data ! 17)"
proof -
  have "py_slice (take 100 data) 16 (16 + 2) = [take 100 data ! 16, take 100 data ! Suc 16]"
    using assms by (intro slice_two) simp
  then show ?thesis by (simp add: be_uint_def)
qed

text \<open>
  Claim C2, as the code has it. Decoding fails with the too-short error exactly when the
  file yields fewer than 100 bytes. It fails with the bad-signature error exactly when the
  file yields at least 100 bytes and its first 16 bytes are not the signature: the length
  test comes first, so a short file never reaches the signature test. It succeeds exactly
  when at least 100 bytes are there and the first 16 are the signature, and in every case
  the bytes of the file are the same after the call as before.
\<close>

theorem parse_header_failures:
  "(fst (parse_header self) = Inl (ValueError too_small_msg)
      \<longleftrightarrow> (\<exists>data. disk self = Some data \<and> length data < 100)) \<and>
   (fst (parse_header self) = Inl (ValueError bad_signature_msg)
      \<longleftrightarrow> (\<exists>data. disk self = Some data \<and> 100 \<le> length data \<and> take 16 data \<noteq> SQLITE_SIGNATURE)) \<and>
   ((\<exists>fields. fst (parse_header self) = Inr fields)
      \<longleftrightarrow> (\<exists>data. disk self = Some data \<and> 100 \<le> length data \<and> take 16 data = SQLITE_SIGNATURE)) \<and>
   disk (snd (parse_header self)) = disk self"
proof (cases "disk self")
  case None
  then show ?thesis by (simp add: parse_header_def)
next
  case (Some data)
  show ?thesis
  proof (cases "length data < 100")
    case True
    with Some show ?thesis
      by (simp add: parse_header_def Let_def too_small_msg_def bad_signature_msg_def)
  next
    case False
    then have len: "100 \<le> length data" by simp
    show ?thesis
      using Some len signature_check [OF len]
      by (simp add: parse_header_def Let_def too_small_msg_def bad_signature_msg_def)
  qed
qed

theorem parse_header_failures_witness:
  "fst (parse_header zero_file_100) = Inl (ValueError bad_signature_msg) \<and>
   fst (parse_header zero_file_50) = Inl (ValueError too_small_msg) \<and>
   (\<exists>fields. fst (parse_header parser_4096) = Inr fields) \<and>
   disk (snd (parse_header parser_4096)) = Some header_4096"
proof -
  have "\<exists>data. disk zero_file_100 = Some data \<and> 100 \<le> length data \<and> take 16 data \<noteq> SQLITE_SIGNATURE"
    using zeros_not_signature [of 100] by (simp add: zero_file_100_def init_parser_def)
  moreover have "\<exists>data. disk zero_file_50 = Some data \<and> length data < 100"
    by (simp add: zero_file_50_def init_parser_def)
  moreover have "\<exists>data. disk parser_4096 = Some data \<and> 100 \<le> length data \<and> take 16 data = SQLITE_SIGNATURE"
    by (simp add: parser_4096_def init_parser_def header_4096_def length_SQLITE_SIGNATURE)
  moreover have "disk parser_4096 = Some header_4096"
    by (simp add: parser_4096_def init_parser_def)
  ultimately show ?thesis
    using parse_header_failures [of zero_file_100] parse_header_failures [of zero_file_50]
      parse_header_failures [of parser_4096]
    by simp
qed

text \<open>
  Claim C2 as it is written fails on a file of 50 zero bytes: its first 16 bytes are not the
  signature, yet the error is the too-short one, not the bad-signature one.
\<close>

theorem parse_header_short_file_counterexample:
  "disk zero_file_50 = Some (replicate 50 0) \<and>
   take 16 (replicate 50 (0 :: byte)) \<noteq> SQLITE_SIGNATURE \<and>
   fst (parse_header zero_file_50) = Inl (ValueError too_small_msg) \<and>
   fst (parse_header zero_file_50) \<noteq> Inl (ValueError bad_signature_msg)"
  using zeros_not_signature [of 50]
  by (simp add: zero_file_50_def init_parser_def parse_header_def
      too_small_msg_def bad_signature_msg_def)

text \<open>
  Claim C4. On a file that decodes, the page size is the big-endian unsigned 16-bit value
  of bytes 16 and 17, except that the raw value 1 stands for 65536; every other raw value,
  4096 for one, decodes to itself. The parser object records the same value.
\<close>

theorem parse_header_page_size:
  assumes "disk self = Some data" and "100 \<le> length data"
    and "take 16 data = SQLITE_SIGNATURE"
  shows "\<exists>fields self'. parse_header self = (Inr fields, self') \<and>
           h_page_size fields = (let raw = uint (data ! 16) * 256 + uint (data ! 17)
                                 in if raw = 1 then 65536 else raw) \<and>
           page_size self' = h_page_size fields"
  using assms signature_check [OF assms(2)] raw_page_size [OF assms(2)]
  by (simp add: parse_header_def Let_def decode_page_size_def)

theorem parse_header_page_size_witness:
  "(\<exists>fields self'. parse_header parser_raw_1 = (Inr fields, self') \<and>
       h_page_size fields = 65536 \<and> page_size self' = 65536) \<and>
   (\<exists>fields self'. parse_header parser_4096 = (Inr fields, self') \<and>
       h_page_size fields = 4096 \<and> page_size self' = 4096)"
  using parse_header_page_size [of parser_raw_1 header_raw_1]
    parse_header_page_size [of parser_4096 header_4096]
  by (auto simp: parser_raw_1_def parser_4096_def init_parser_def header_raw_1_def
      header_4096_def SQLITE_SIGNATURE_def)

section \<open>Properties of the hex-pattern search\<close>

lemma occurs_at_prefix: "occurs_at data sub j \<longleftrightarrow> prefix sub (drop j data)"
  by (simp add: occurs_at_def py_slice_def prefix_take_eq)

lemma occurs_at_fits:
  assumes "occurs_at data sub j"
  shows "j + length sub \<le> length data \<or> sub = []"
proof -
  from assms have "length sub \<le> length (drop j data)"
    unfolding occurs_at_prefix by (rule prefix_length_le)
  then have "length sub \<le> length data - j" by simp
  moreover have "0 < length sub \<or> sub = []" by simp
  ultimately show ?thesis by linarith
qed

lemma find_at_Some:
  "find_at xs sub i = Some j \<Longrightarrow>
     i \<le> j \<and> j - i \<le> length xs \<and> prefix sub (drop (j - i) xs) \<and>
     (\<forall>k < j - i. \<not> prefix sub (drop k xs))"
proof (induction xs arbitrary: i)
  case Nil
  then show ?case by (simp split: if_splits)
next
  case (Cons x xs)
  show ?case
  proof (cases "prefix sub (x # xs)")
    case True
    with Cons.prems show ?thesis by simp
  next
    case False
    with Cons.prems have rec: "find_at xs sub (Suc i) = Some j" by simp
    from Cons.IH [OF rec]
    have a: "Suc i \<le> j" and b: "j - Suc i \<le> length xs"
      and c: "prefix sub (drop (j - Suc i) xs)"
      and d: "\<forall>k < j - Suc i. \<not> prefix sub (drop k xs)"
      by auto
    from a have e: "j - i = Suc (j - Suc i)" by simp
    have "\<not> prefix sub (drop k (x # xs))" if "k < j - i" for k
    proof (cases k)
      case 0
      with False show ?thesis by simp
    next
      case (Suc k')
      with that e have "k' < j - Suc i" by simp
      with d Suc show ?thesis by simp
    qed
    with a b c e show ?thesis by simp
  qed
qed

lemma find_at_None:
  "find_at xs sub i = None \<Longrightarrow> k \<le> length xs \<Longrightarrow> \<not> prefix sub (drop k xs)"
proof (induction xs arbitrary: i k)
  case Nil
  then show ?case by (simp split: if_splits)
next
  case (Cons x xs)
  from Cons.prems(1) have np: "\<not> prefix sub (x # xs)" and rec: "find_at xs sub (Suc i) = None"
    by (simp_all split: if_splits)
  show ?case
  proof (cases k)
    case 0
    with np show ?thesis by simp
  next
    case (Suc k')
    with Cons.prems(2) have "k' \<le> length xs" by simp
    from Cons.IH [OF rec this] Suc show ?thesis by simp
  qed
qed

lemma bytes_find_Some:
  assumes "bytes_find data sub start = Some j"
  shows "start \<le> j \<and> j \<le> length data \<and> occurs_at data sub j \<and>
         (\<forall>k \<in> {start..<j}. \<not> occurs_at data sub k)"
proof -
  from assms have le: "start \<le> length data"
    and f: "find_at (drop start data) sub start = Some j"
    by (simp_all add: bytes_find_def split: if_splits)
  from find_at_Some [OF f]
  have a: "start \<le> j" and b: "j - start \<le> length (drop start data)"
    and c: "prefix sub (drop (j - start) (drop start data))"
    and d: "\<forall>k < j - start. \<not> prefix sub (drop k (drop start data))"
    by auto
  from a c have occ: "occurs_at data sub j" by (simp add: occurs_at_prefix add.commute)
  have "\<not> occurs_at data sub k" if "k \<in> {start..<j}" for k
  proof -
    from that have "k - start < j - start" by auto
    with d have "\<not> prefix sub (drop (k - start) (drop start data))" by blast
    with that show ?thesis by (simp add: occurs_at_prefix add.commute)
  qed
  with a b le occ show ?thesis by auto
qed

lemma bytes_find_None:
  assumes "bytes_find data sub start = None" and "sub \<noteq> []" and "start \<le> k"
  shows "\<not> occurs_at data sub k"
proof (cases "k \<le> length data")
  case True
  with assms(3) have le: "start \<le> length data" by simp
  with assms(1) have f: "find_at (drop start data) sub start = None"
    by (simp add: bytes_find_def)
  from True assms(3) have "k - start \<le> length (drop start data)" by simp
  from find_at_None [OF f this] assms(3) show ?thesis
    by (simp add: occurs_at_prefix add.commute)
next
  case False
  with assms(2) show ?thesis by (simp add: occurs_at_prefix)
qed

lemma find_loop_returns:
  assumes "sub \<noteq> []"
  shows "\<exists>offs. find_loop data sub start results = Some (results @ map (make_match data sub) offs)
           \<and> leftmost_scan data sub start offs"
proof (induction "Suc (length data) - start" arbitrary: start results rule: less_induct)
  case less
  show ?case
  proof (cases "bytes_find data sub start")
    case None
    then have "find_loop data sub start results = Some results"
      by (subst find_loop.simps) simp
    moreover have "leftmost_scan data sub start []"
      using bytes_find_None [OF None assms] by simp
    ultimately show ?thesis by (intro exI [of _ "[]"]) simp
  next
    case (Some j)
    from bytes_find_Some [OF Some]
    have a: "start \<le> j" and occ: "occurs_at data sub j"
      and first: "\<forall>k \<in> {start..<j}. \<not> occurs_at data sub k"
      by auto
    from occurs_at_fits [OF occ] assms have fits: "j + length sub \<le> length data" by simp
    from assms have "0 < length sub" by simp
    with a fits have "Suc (length data) - (j + length sub) < Suc (length data) - start"
      by linarith
    from less [OF this, of "results @ [make_match data sub j]"]
    obtain offs where
      r: "find_loop data sub (j + length sub) (results @ [make_match data sub j])
            = Some ((results @ [make_match data sub j]) @ map (make_match data sub) offs)"
      and s: "leftmost_scan data sub (j + length sub) offs"
      by blast
    have "find_loop data sub start results = Some (results @ map (make_match data sub) (j # offs))"
      by (subst find_loop.simps) (simp add: Some r)
    moreover have "leftmost_scan data sub start (j # offs)"
      using a occ first s by simp
    ultimately show ?thesis by blast
  qed
qed

lemma leftmost_scan_gaps:
  "leftmost_scan data sub start offs \<Longrightarrow> Suc i < length offs \<Longrightarrow>
     offs ! i + length sub \<le> offs ! Suc i"
proof (induction offs arbitrary: start i)
  case Nil
  then show ?case by simp
next
  case (Cons j js)
  show ?case
  proof (cases i)
    case 0
    with Cons.prems show ?thesis by (cases js) auto
  next
    case (Suc i')
    with Cons.prems Cons.IH [of "j + length sub" i'] show ?thesis by simp
  qed
qed

lemma leftmost_scan_occurs:
  "leftmost_scan data sub start offs \<Longrightarrow> j \<in> set offs \<Longrightarrow> start \<le> j \<and> occurs_at data sub j"
proof (induction offs arbitrary: start)
  case Nil
  then show ?case by simp
next
  case (Cons a as)
  from Cons.prems(2) consider "j = a" | "j \<in> set as" by auto
  then show ?case
  proof cases
    case 1
    with Cons.prems(1) show ?thesis by simp
  next
    case 2
    with Cons.prems(1) Cons.IH [of "a + length sub"] show ?thesis by fastforce
  qed
qed

lemma leftmost_scan_covers:
  "leftmost_scan data sub start offs \<Longrightarrow> sub \<noteq> [] \<Longrightarrow> start \<le> k \<Longrightarrow> occurs_at data sub k \<Longrightarrow>
     \<exists>j \<in> set offs. j \<le> k \<and> k < j + length sub"
proof (induction offs arbitrary: start)
  case Nil
  from occurs_at_fits [OF Nil.prems(4)] Nil.prems(2) have "k \<le> length data" by simp
  with Nil.prems show ?case by simp
next
  case (Cons a as)
  from Cons.prems(1) have a: "start \<le> a" and first: "\<forall>k \<in> {start..<a}. \<not> occurs_at data sub k"
    and rest: "leftmost_scan data sub (a + length sub) as"
    by simp_all
  from first Cons.prems(3,4) have "a \<le> k" by (metis atLeastLessThan_iff not_le_imp_less)
  show ?case
  proof (cases "k < a + length sub")
    case True
    with \<open>a \<le> k\<close> show ?thesis by auto
  next
    case False
    then have "a + length sub \<le> k" by simp
    from Cons.IH [OF rest Cons.prems(2) this Cons.prems(4)] show ?thesis by auto
  qed
qed

lemma context_data_nat:
  "context_data data sub j =
     take (min (length data) (j + length sub + 16) - (j - 16)) (drop (j - 16) data)"
proof -
  have "nat (max 0 (int j - 16)) = j - 16" by simp
  moreover have "nat (min (int (length data)) (int j + int (length sub) + 16))
                   = min (length data) (j + length sub + 16)"
    by linarith
  ultimately show ?thesis by (simp add: context_data_def py_slice_def Let_def)
qed

lemma context_data_window:
  assumes "occurs_at data sub j" and "sub \<noteq> []"
  shows "context_data data sub j =
           drop (j - 16) (take j data) @ sub @ take 16 (drop (j + length sub) data)"
proof -
  define A where "A = take j data"
  define B where "B = drop (j + length sub) data"
  from occurs_at_fits [OF assms(1)] assms(2) have fits: "j + length sub \<le> length data" by simp
  from assms(1) have "take (length sub) (drop j data) = sub"
    by (simp add: occurs_at_def py_slice_def)
  then have "drop j data = sub @ B"
    by (metis B_def append_take_drop_id drop_drop add.commute)
  then have data: "data = A @ sub @ B"
    by (metis A_def append_take_drop_id)
  have lenA: "length A = j" using fits by (simp add: A_def)
  have "take (min (length data) (j + length sub + 16) - (j - 16)) (drop (j - 16) data)
          = drop (j - 16) A @ sub @ take 16 B"
    by (subst (1 2) data) (simp add: lenA min_def, arith)
  then show ?thesis by (simp add: context_data_nat A_def B_def)
qed

lemma leftmost_scan_single:
  assumes "leftmost_scan data sub 0 offs" and "sub \<noteq> []"
    and "occurs_at data sub 0" and "\<forall>k \<in> {1..length data}. \<not> occurs_at data sub k"
  shows "offs = [0]"
proof (cases offs)
  case Nil
  with assms(1,3) show ?thesis by simp
next
  case (Cons j js)
  with assms(1) have first: "\<forall>k \<in> {0..<j}. \<not> occurs_at data sub k"
    and rest: "leftmost_scan data sub (j + length sub) js"
    by simp_all
  from first assms(3) have j: "j = 0" by (cases "j = 0") auto
  have "js = []"
  proof (cases js)
    case Nil
    then show ?thesis .
  next
    case (Cons j2 js2)
    with rest j have "length sub \<le> j2" and occ: "occurs_at data sub j2" by simp_all
    with assms(2) have "1 \<le> j2" by (cases sub) auto
    moreover from occurs_at_fits [OF occ] assms(2) have "j2 \<le> length data" by simp
    ultimately show ?thesis using assms(4) occ by auto
  qed
  with Cons j show ?thesis by simp
qed

lemma occurs_later_hd:
  assumes "occurs_at data sub k" and "sub \<noteq> []" and "1 \<le> k"
  shows "hd sub \<in> set (tl data)"
proof -
  from assms(1) obtain zs where "drop k data = sub @ zs"
    by (auto simp: occurs_at_prefix prefix_def)
  with assms(2) have "hd sub \<in> set (drop k data)" by (cases sub) auto
  moreover from assms(3) have "drop k data = drop (k - 1) (tl data)"
    by (cases k) (simp_all add: drop_Suc)
  ultimately show ?thesis using set_drop_subset [of "k - 1" "tl data"] by auto
qed

lemma leftmost_scan_unique:
  assumes "sub \<noteq> []"
  shows "leftmost_scan data sub start xs \<Longrightarrow> leftmost_scan data sub start ys \<Longrightarrow> xs = ys"
proof (induction xs arbitrary: start ys)
  case Nil
  show ?case
  proof (cases ys)
    case Nil
    then show ?thesis by simp
  next
    case (Cons j js)
    with Nil.prems(2) have "start \<le> j" and occ: "occurs_at data sub j" by simp_all
    moreover from occurs_at_fits [OF occ] assms have "j \<le> length data" by simp
    ultimately show ?thesis using Nil.prems(1) by simp
  qed
next
  case (Cons i rest)
  from Cons.prems(1) have i: "start \<le> i" "occurs_at data sub i"
    "\<forall>k \<in> {start..<i}. \<not> occurs_at data sub k" "leftmost_scan data sub (i + length sub) rest"
    by simp_all
  show ?case
  proof (cases ys)
    case Nil
    from occurs_at_fits [OF i(2)] assms have "i \<le> length data" by simp
    with Nil Cons.prems(2) i(1,2) show ?thesis by simp
  next
    case (Cons j js)
    with Cons.prems(2) have j: "start \<le> j" "occurs_at data sub j"
      "\<forall>k \<in> {start..<j}. \<not> occurs_at data sub k" "leftmost_scan data sub (j + length sub) js"
      by simp_all
    have "i = j"
    proof (rule ccontr)
      assume "i \<noteq> j"
      then consider "i < j" | "j < i" by linarith
      then show False
      proof cases
        case 1
        with i(1,2) j(3) show False by simp
      next
        case 2
        with j(1,2) i(3) show False by simp
      qed
    qed
    with Cons.IH [OF i(4)] j(4) Cons show ?thesis by simp
  qed
qed

lemma unhexlify_signature_hex: "unhexlify signature_hex = Inr SQLITE_SIGNATURE"
  by code_simp

text \<open>
  Claim C5. For a readable file and a pattern that decodes to a non-empty byte string, the
  search returns, and what it returns is one match per offset of a left-to-right scan that
  takes the first occurrence at or after its cursor and then moves the cursor past it.
  Hence consecutive reported offsets are at least one pattern length apart, every reported
  offset is an occurrence, and every occurrence in the file is either reported or overlaps
  a reported one that starts before it. Each match carries its offset, and as context the
  up to 16 bytes before the match, the match, and the up to 16 bytes after it, in hex and
  as ASCII-or-dot. A pattern that stands at offset 0 and nowhere else gives exactly one
  match, at offset 0.
\<close>

theorem find_hex_pattern_scan:
  assumes "disk self = Some data" and "unhexlify pattern = Inr sub" and "sub \<noteq> []"
  shows "\<exists>offs. find_hex_pattern self pattern = Some (map (make_match data sub) offs) \<and>
           leftmost_scan data sub 0 offs \<and>
           (\<forall>i. Suc i < length offs \<longrightarrow> offs ! i + length sub \<le> offs ! Suc i) \<and>
           (\<forall>j \<in> set offs. occurs_at data sub j \<and>
              make_match data sub j =
                Match j (hex (int j)) (hexlify (context_data data sub j))
                  (ascii_repr (context_data data sub j)) \<and>
              context_data data sub j =
                drop (j - 16) (take j data) @ sub @ take 16 (drop (j + length sub) data)) \<and>
           (\<forall>k. occurs_at data sub k \<longrightarrow> (\<exists>j \<in> set offs. j \<le> k \<and> k < j + length sub)) \<and>
           (occurs_at data sub 0 \<and> (\<forall>k \<in> {1..length data}. \<not> occurs_at data sub k)
              \<longrightarrow> offs = [0])"
proof -
  from find_loop_returns [OF assms(3), of data 0 "[]"]
  obtain offs where r: "find_loop data sub 0 [] = Some (map (make_match data sub) offs)"
    and s: "leftmost_scan data sub 0 offs"
    by auto
  have 1: "find_hex_pattern self pattern = Some (map (make_match data sub) offs)"
    using assms(1,2) r by (simp add: find_hex_pattern_def)
  have 2: "\<forall>i. Suc i < length offs \<longrightarrow> offs ! i + length sub \<le> offs ! Suc i"
    using leftmost_scan_gaps [OF s] by blast
  have 3: "\<forall>j \<in> set offs. occurs_at data sub j \<and>
              make_match data sub j =
                Match j (hex (int j)) (hexlify (context_data data sub j))
                  (ascii_repr (context_data data sub j)) \<and>
              context_data data sub j =
                drop (j - 16) (take j data) @ sub @ take 16 (drop (j + length sub) data)"
    using leftmost_scan_occurs [OF s] context_data_window [OF _ assms(3)]
    by (simp add: make_match_def)
  have 4: "\<forall>k. occurs_at data sub k \<longrightarrow> (\<exists>j \<in> set offs. j \<le> k \<and> k < j + length sub)"
    using leftmost_scan_covers [OF s assms(3)] by simp
  have 5: "occurs_at data sub 0 \<and> (\<forall>k \<in> {1..length data}. \<not> occurs_at data sub k)
              \<longrightarrow> offs = [0]"
    using leftmost_scan_single [OF s assms(3)] by blast
  from 1 s 2 3 4 5 show ?thesis by blast
qed

theorem find_hex_pattern_scan_witness:
  "find_hex_pattern parser_4096 signature_hex =
     Some [Match 0 ''0x0'' ''53514c69746520666f726d617420330010000000000000000000000000000000''
             ''SQLite format 3.................''] \<and>
   find_hex_pattern overlap_parser ''0000'' =
     Some [Match 0 ''0x0'' ''000000010000'' ''......'', Match 4 ''0x4'' ''000000010000'' ''......'']"
proof -
  have d: "disk parser_4096 = Some header_4096"
    by (simp add: parser_4096_def init_parser_def)
  have ne: "SQLITE_SIGNATURE \<noteq> []" by (simp add: SQLITE_SIGNATURE_def)
  have "hd SQLITE_SIGNATURE \<notin> set (tl header_4096)"
    by (simp add: header_4096_def SQLITE_SIGNATURE_def)
  then have "\<forall>k \<in> {1..length header_4096}. \<not> occurs_at header_4096 SQLITE_SIGNATURE k"
    using occurs_later_hd [OF _ ne] by auto
  moreover have "occurs_at header_4096 SQLITE_SIGNATURE 0"
    by (simp add: occurs_at_def py_slice_def header_4096_def length_SQLITE_SIGNATURE)
  ultimately have only: "occurs_at header_4096 SQLITE_SIGNATURE 0 \<and>
              (\<forall>k \<in> {1..length header_4096}. \<not> occurs_at header_4096 SQLITE_SIGNATURE k)"
    by simp
  have m: "make_match header_4096 SQLITE_SIGNATURE 0 =
             Match 0 ''0x0'' ''53514c69746520666f726d617420330010000000000000000000000000000000''
               ''SQLite format 3.................''"
    by code_simp
  from find_hex_pattern_scan [OF d unhexlify_signature_hex ne] only m
  have first: "find_hex_pattern parser_4096 signature_hex =
     Some [Match 0 ''0x0'' ''53514c69746520666f726d617420330010000000000000000000000000000000''
             ''SQLite format 3.................'']"
    by auto
  have d2: "disk overlap_parser = Some [0, 0, 0, 1, 0, 0]"
    by (simp add: overlap_parser_def init_parser_def)
  have u2: "unhexlify ''0000'' = Inr [0, 0]" by code_simp
  have gap: "\<not> occurs_at [0, 0, 0, 1, 0, 0] [0, 0] k" if "2 \<le> k" and "k < 4" for k
  proof -
    from that have "k = 2 \<or> k = 3" by linarith
    then show ?thesis by (auto simp: occurs_at_def py_slice_def)
  qed
  have hits: "occurs_at [0, 0, 0, 1, 0, 0] [0, 0] 0" "occurs_at [0, 0, 0, 1, 0, 0] [0, 0] 4"
    by (simp_all add: occurs_at_def py_slice_def)
  have past: "\<not> occurs_at [0, 0, 0, 1, 0, 0] [0, 0] k" if "6 \<le> k" for k
    using that by (simp add: occurs_at_def py_slice_def)
  have scan: "leftmost_scan [0, 0, 0, 1, 0, 0] [0, 0] 0 [0, 4]"
    using gap hits past by auto
  have m2: "map (make_match [0, 0, 0, 1, 0, 0] [0, 0]) [0, 4] =
              [Match 0 ''0x0'' ''000000010000'' ''......'', Match 4 ''0x4'' ''000000010000'' ''......'']"
    by code_simp
  from find_hex_pattern_scan [OF d2 u2]
  obtain offs where r: "find_hex_pattern overlap_parser ''0000''
        = Some (map (make_match [0, 0, 0, 1, 0, 0] [0, 0]) offs)"
    and s: "leftmost_scan [0, 0, 0, 1, 0, 0] [0, 0] 0 offs"
    by auto
  from leftmost_scan_unique [OF _ s scan] have "offs = [0, 4]" by simp
  with r m2 have "find_hex_pattern overlap_parser ''0000'' =
     Some [Match 0 ''0x0'' ''000000010000'' ''......'', Match 4 ''0x4'' ''000000010000'' ''......'']"
    by simp
  with first show ?thesis by simp
qed

lemma find_at_empty: "find_at xs [] i = Some i"
  by (cases xs) simp_all

lemma bytes_find_empty: "start \<le> length data \<Longrightarrow> bytes_find data [] start = Some start"
  by (simp add: bytes_find_def find_at_empty)

lemma find_loop_empty_never_returns:
  assumes "find_loop data sb offset results = Some res"
  shows "\<not> (sb = [] \<and> offset \<le> length data)"
proof (rule find_loop.raw_induct
    [where P = "\<lambda>data sb offset results res. \<not> (sb = [] \<and> offset \<le> length data)", OF _ assms])
  fix loop data sb offset results res
  assume IH: "\<And>data sb offset results res.
      loop data sb offset results = Some res \<Longrightarrow> \<not> (sb = [] \<and> offset \<le> length data)"
    and step: "(case bytes_find data sb offset of None \<Rightarrow> Some results
       | Some found \<Rightarrow> loop data sb (found + length sb) (results @ [make_match data sb found]))
      = Some res"
  show "\<not> (sb = [] \<and> offset \<le> length data)"
  proof
    assume a: "sb = [] \<and> offset \<le> length data"
    then have "bytes_find data sb offset = Some offset" by (simp add: bytes_find_empty)
    with step a have "loop data [] offset (results @ [make_match data [] offset]) = Some res"
      by simp
    from IH [OF this] a show False by simp
  qed
qed

lemma find_hex_pattern_empty_diverges:
  assumes "disk self = Some data"
  shows "find_hex_pattern self [] = None"
proof -
  have "find_loop data [] 0 [] = None"
    using find_loop_empty_never_returns [of data "[]" 0 "[]"]
    by (cases "find_loop data [] 0 []") auto
  with assms show ?thesis by (simp add: find_hex_pattern_def unhexlify_def)
qed

text \<open>
  Claim C10 fails on the code: the empty pattern makes the loop run forever. \<open>unhexlify\<close>
  accepts the empty string and yields no bytes; \<open>find\<close> then reports the cursor itself, and
  the cursor advances by the pattern length, which is 0.
\<close>

theorem find_hex_pattern_empty_pattern_hangs:
  "unhexlify [] = Inr [] \<and> find_hex_pattern parser_4096 [] = None"
proof -
  have "disk parser_4096 = Some header_4096"
    by (simp add: parser_4096_def init_parser_def)
  from find_hex_pattern_empty_diverges [OF this] show ?thesis
    by (simp add: unhexlify_def)
qed

section \<open>Properties of the hex dump\<close>

lemma rows16_concat_take:
  "concat (map (\<lambda>k. py_slice data (16 * k) (16 * k + 16)) [0 ..< m]) = take (16 * m) data"
proof (induction m)
  case 0
  then show ?case by simp
next
  case (Suc m)
  have "concat (map (\<lambda>k. py_slice data (16 * k) (16 * k + 16)) [0 ..< Suc m])
          = take (16 * m) data @ take 16 (drop (16 * m) data)"
    using Suc by (simp add: py_slice_def)
  also have "\<dots> = take (16 * m + 16) data"
    by (rule take_add [symmetric])
  also have "16 * m + 16 = 16 * Suc m" by simp
  finally show ?case .
qed

lemma concat_rows16: "concat (rows16 data) = data"
proof -
  have "length data \<le> 16 * ((length data + 15) div 16)" by linarith
  then show ?thesis by (simp add: rows16_def rows16_concat_take)
qed

lemma rows16_row_length:
  assumes "k < length (rows16 data)"
  shows "0 < length (rows16 data ! k) \<and> length (rows16 data ! k) \<le> 16 \<and>
         (Suc k < length (rows16 data) \<longrightarrow> length (rows16 data ! k) = 16)"
proof -
  from assms have k: "k < (length data + 15) div 16" by (simp add: rows16_def)
  then have "rows16 data ! k = take 16 (drop (16 * k) data)"
    by (simp add: rows16_def py_slice_def)
  then have row: "length (rows16 data ! k) = min 16 (length data - 16 * k)"
    by simp
  have len: "length (rows16 data) = (length data + 15) div 16"
    by (simp add: rows16_def)
  have bound: "16 * ((length data + 15) div 16) \<le> length data + 15"
    by simp
  from k bound have "16 * k < length data" by linarith
  moreover have "16 * k + 16 < length data" if "Suc k < (length data + 15) div 16"
    using that bound by linarith
  ultimately show ?thesis unfolding row len by (auto simp: min_def)
qed

lemma hex_pairs_slices:
  "map (\<lambda>j. py_slice (concat (map hex_pair row)) (2 * j) (2 * j + 2)) [0 ..< length row]
     = map hex_pair row"
proof (induction row)
  case Nil
  then show ?case by simp
next
  case (Cons b bs)
  have pair: "length (hex_pair b) = 2" by (simp add: hex_pair_def)
  have "map (\<lambda>j. py_slice (hex_pair b @ concat (map hex_pair bs)) (2 * j) (2 * j + 2))
          [0 ..< Suc (length bs)]
        = hex_pair b #
          map (\<lambda>j. py_slice (concat (map hex_pair bs)) (2 * j) (2 * j + 2)) [0 ..< length bs]"
    by (simp add: upt_conv_Cons map_Suc_upt [symmetric] py_slice_def pair del: upt_Suc)
  with Cons.IH show ?case by simp
qed

lemma length_hexlify: "length (hexlify row) = 2 * length row"
  by (induction row) (simp_all add: hexlify_def hex_pair_def)

lemma hex_formatted_pairs: "hex_formatted row = str_join '' '' (map hex_pair row)"
  using hex_pairs_slices [of row]
  by (simp add: hex_formatted_def Let_def length_hexlify) (simp add: hexlify_def)

lemma hex_value_hex_digit:
  assumes "n < 16"
  shows "hex_value (hex_digit n) = Some n"
proof -
  from assms have "n \<in> {0, 1, 2, 3, 4, 5, 6, 7, 8, 9, 10, 11, 12, 13, 14, 15}" by simp arith
  then show ?thesis by (auto simp: hex_digit_def hex_value_def)
qed

lemma hex_pair_decodes: "length (hex_pair b) = 2 \<and> unhex_pairs (hex_pair b) = Inr [b]"
proof -
  have "unat b < 256" using unsigned_less [of b, where 'a = nat] by simp
  then have "unat b div 16 < 16" by linarith
  then have hi: "hex_value (hex_digit (unat b div 16)) = Some (unat b div 16)"
    by (rule hex_value_hex_digit)
  have lo: "hex_value (hex_digit (unat b mod 16)) = Some (unat b mod 16)"
    by (rule hex_value_hex_digit) simp
  have "(of_nat (unat b div 16 * 16 + unat b mod 16) :: byte) = b" by simp
  with hi lo show ?thesis by (simp add: hex_pair_def)
qed

text \<open>
  Claim C7, as the code has it. Let the file be readable, the offset lie between 0 and the
  largest offset the file system accepts, and the length be either \<open>-1\<close> or lie between 0
  and the largest length a buffer can be had for. Then the dump is made of the bytes
  \<open>f.read(length)\<close> returns from that offset: at most \<open>length\<close> bytes when \<open>length\<close> is not
  negative, all the bytes up to the end of the file when it is \<open>-1\<close>. The bytes are cut
  into rows of 16 (only the last row may be shorter); each row is rendered as its bytes'
  two-digit hex pairs separated by spaces, and as one character per byte, the byte's own
  character for 0x20 to 0x7E and a dot otherwise. Fewer bytes than asked for is no error,
  and an offset at or past the end of the file gives empty rows and no error. In every
  other case (the file cannot be opened, the offset is negative or beyond the limit, the
  length is below \<open>-1\<close> or beyond the limit) the seek or the read raises, and the result is
  returned with its error field set and no rows.
\<close>

theorem get_hex_dump_result:
  "(disk self = Some content \<and> 0 \<le> offset \<and> offset \<le> seek_limit self \<and> offset < 2 ^ 63 \<and>
    (len = - 1 \<or> (0 \<le> len \<and> len \<le> read_limit self \<and> len < 2 ^ 63)) \<longrightarrow>
      (\<exists>data. data = (if len = - 1 then drop (nat offset) content
                      else take (nat len) (drop (nat offset) content)) \<and>
         (0 \<le> len \<longrightarrow> length data \<le> nat len) \<and>
         get_hex_dump self offset len =
           \<lparr> hd_offset = offset, hd_length = len,
             hd_hex_data = map (\<lambda>row. str_join '' '' (map hex_pair row)) (rows16 data),
             hd_ascii_data = map (map ascii_or_dot) (rows16 data),
             hd_error = None \<rparr> \<and>
         concat (rows16 data) = data \<and>
         (\<forall>k < length (rows16 data).
            0 < length (rows16 data ! k) \<and> length (rows16 data ! k) \<le> 16 \<and>
            (Suc k < length (rows16 data) \<longrightarrow> length (rows16 data ! k) = 16)) \<and>
         (int (length content) \<le> offset \<longrightarrow> rows16 data = []))) \<and>
   (disk self = None \<or> offset < 0 \<or> seek_limit self < offset \<or> 2 ^ 63 \<le> offset \<or>
    len < - 1 \<or> (0 \<le> len \<and> read_limit self < len) \<or> 2 ^ 63 \<le> len \<longrightarrow>
      (\<exists>msg. get_hex_dump self offset len =
         \<lparr> hd_offset = offset, hd_length = len, hd_hex_data = [], hd_ascii_data = [],
           hd_error = Some msg \<rparr>)) \<and>
   (\<forall>b. length (hex_pair b) = 2 \<and> unhex_pairs (hex_pair b) = Inr [b] \<and>
        ascii_or_dot b = (if 0x20 \<le> b \<and> b \<le> 0x7E then char_of (unat b) else CHR ''.''))"
proof (intro conjI impI allI)
  assume a: "disk self = Some content \<and> 0 \<le> offset \<and> offset \<le> seek_limit self \<and> offset < 2 ^ 63 \<and>
    (len = - 1 \<or> (0 \<le> len \<and> len \<le> read_limit self \<and> len < 2 ^ 63))"
  define data where "data = (if len = - 1 then drop (nat offset) content
                      else take (nat len) (drop (nat offset) content))"
  have read: "file_seek_read content (seek_limit self) (read_limit self) offset len = Inr data"
    using a by (auto simp: file_seek_read_def data_def Let_def)
  have dump: "get_hex_dump self offset len =
           \<lparr> hd_offset = offset, hd_length = len,
             hd_hex_data = map (\<lambda>row. str_join '' '' (map hex_pair row)) (rows16 data),
             hd_ascii_data = map (map ascii_or_dot) (rows16 data),
             hd_error = None \<rparr>"
    using a read by (simp add: get_hex_dump_def Let_def hex_formatted_pairs ascii_repr_def)
  have short: "0 \<le> len \<longrightarrow> length data \<le> nat len"
    by (simp add: data_def)
  have past: "int (length content) \<le> offset \<longrightarrow> rows16 data = []"
    by (simp add: data_def rows16_def)
  from dump short past concat_rows16 [of data] rows16_row_length [of _ data]
  show "\<exists>data. data = (if len = - 1 then drop (nat offset) content
                      else take (nat len) (drop (nat offset) content)) \<and>
         (0 \<le> len \<longrightarrow> length data \<le> nat len) \<and>
         get_hex_dump self offset len =
           \<lparr> hd_offset = offset, hd_length = len,
             hd_hex_data = map (\<lambda>row. str_join '' '' (map hex_pair row)) (rows16 data),
             hd_ascii_data = map (map ascii_or_dot) (rows16 data),
             hd_error = None \<rparr> \<and>
         concat (rows16 data) = data \<and>
         (\<forall>k < length (rows16 data).
            0 < length (rows16 data ! k) \<and> length (rows16 data ! k) \<le> 16 \<and>
            (Suc k < length (rows16 data) \<longrightarrow> length (rows16 data ! k) = 16)) \<and>
         (int (length content) \<le> offset \<longrightarrow> rows16 data = [])"
    unfolding data_def [symmetric] by (intro exI [of _ data]) (simp add: data_def)
next
  assume e: "disk self = None \<or> offset < 0 \<or> seek_limit self < offset \<or> 2 ^ 63 \<le> offset \<or>
    len < - 1 \<or> (0 \<le> len \<and> read_limit self < len) \<or> 2 ^ 63 \<le> len"
  show "\<exists>msg. get_hex_dump self offset len =
         \<lparr> hd_offset = offset, hd_length = len, hd_hex_data = [], hd_ascii_data = [],
           hd_error = Some msg \<rparr>"
  proof (cases "disk self")
    case None
    then show ?thesis by (simp add: get_hex_dump_def)
  next
    case (Some content)
    with e have "\<exists>x. file_seek_read content (seek_limit self) (read_limit self) offset len = Inl x"
      by (auto simp: file_seek_read_def Let_def)
    with Some show ?thesis by (auto simp: get_hex_dump_def)
  qed
next
  fix b :: byte
  show "length (hex_pair b) = 2" using hex_pair_decodes by simp
  show "unhex_pairs (hex_pair b) = Inr [b]" using hex_pair_decodes by simp
  show "ascii_or_dot b = (if 0x20 \<le> b \<and> b \<le> 0x7E then char_of (unat b) else CHR ''.'')"
    by (simp add: ascii_or_dot_def)
qed

theorem get_hex_dump_result_witness:
  "get_hex_dump parser_4096 0 20 =
     \<lparr> hd_offset = 0, hd_length = 20,
       hd_hex_data = [''53 51 4c 69 74 65 20 66 6f 72 6d 61 74 20 33 00'', ''10 00 00 00''],
       hd_ascii_data = [''SQLite format 3.'', ''....''],
       hd_error = None \<rparr> \<and>
   get_hex_dump parser_4096 200 20 =
     \<lparr> hd_offset = 200, hd_length = 20, hd_hex_data = [], hd_ascii_data = [], hd_error = None \<rparr> \<and>
   (\<exists>msg. get_hex_dump parser_4096 (- 1) 20 =
      \<lparr> hd_offset = - 1, hd_length = 20, hd_hex_data = [], hd_ascii_data = [],
        hd_error = Some msg \<rparr>) \<and>
   (\<exists>msg. get_hex_dump parser_4096 95 (- 2) =
      \<lparr> hd_offset = 95, hd_length = - 2, hd_hex_data = [], hd_ascii_data = [],
        hd_error = Some msg \<rparr>)"
proof -
  have d: "disk parser_4096 = Some header_4096"
    by (simp add: parser_4096_def init_parser_def)
  have lim: "seek_limit parser_4096 = 17592186040320" "read_limit parser_4096 = 8589934592"
    by (simp_all add: parser_4096_def init_parser_def)
  have len: "length header_4096 = 100"
    by (simp add: header_4096_def length_SQLITE_SIGNATURE)
  have rows: "rows16 (take (nat 20) (drop (nat 0) header_4096)) =
                [SQLITE_SIGNATURE, [0x10, 0, 0, 0]]"
    by code_simp
  have hex: "map (\<lambda>row. str_join '' '' (map hex_pair row)) [SQLITE_SIGNATURE, [0x10, 0, 0, 0]]
               = [''53 51 4c 69 74 65 20 66 6f 72 6d 61 74 20 33 00'', ''10 00 00 00'']"
    by code_simp
  have asc: "map (map ascii_or_dot) [SQLITE_SIGNATURE, [0x10, 0, 0, 0]]
               = [''SQLite format 3.'', ''....'']"
    by code_simp
  from get_hex_dump_result [of parser_4096 header_4096 0 20, THEN conjunct1] d lim rows hex asc
  have 1: "get_hex_dump parser_4096 0 20 =
     \<lparr> hd_offset = 0, hd_length = 20,
       hd_hex_data = [''53 51 4c 69 74 65 20 66 6f 72 6d 61 74 20 33 00'', ''10 00 00 00''],
       hd_ascii_data = [''SQLite format 3.'', ''....''],
       hd_error = None \<rparr>"
    by simp
  from get_hex_dump_result [of parser_4096 header_4096 200 20, THEN conjunct1] d lim len
  have 2: "get_hex_dump parser_4096 200 20 =
     \<lparr> hd_offset = 200, hd_length = 20, hd_hex_data = [], hd_ascii_data = [], hd_error = None \<rparr>"
    by (simp add: rows16_def)
  from get_hex_dump_result [of parser_4096 header_4096 "- 1" 20, THEN conjunct2, THEN conjunct1]
  have 3: "\<exists>msg. get_hex_dump parser_4096 (- 1) 20 =
      \<lparr> hd_offset = - 1, hd_length = 20, hd_hex_data = [], hd_ascii_data = [],
        hd_error = Some msg \<rparr>"
    by simp
  from get_hex_dump_result [of parser_4096 header_4096 95 "- 2", THEN conjunct2, THEN conjunct1]
  have 4: "\<exists>msg. get_hex_dump parser_4096 95 (- 2) =
      \<lparr> hd_offset = 95, hd_length = - 2, hd_hex_data = [], hd_ascii_data = [],
        hd_error = Some msg \<rparr>"
    by simp
  from 1 2 3 4 show ?thesis by blast
qed

text \<open>
  Claim C7 as it is written fails in two places. The length \<open>-1\<close> is \<open>read\<close>'s "to the end of
  the file", so a dump asked for with length \<open>-1\<close> at offset 95 of a 100-byte file comes back
  with five bytes, more than the length given. And an offset past the end of the file is
  not always answered with an empty result: at offset \<open>2^63\<close> the seek raises, and the
  result carries an error.
\<close>

theorem get_hex_dump_negative_length_counterexample:
  "get_hex_dump parser_4096 95 (- 1) =
     \<lparr> hd_offset = 95, hd_length = - 1, hd_hex_data = [''00 00 00 00 00''],
       hd_ascii_data = [''.....''], hd_error = None \<rparr> \<and>
   get_hex_dump parser_4096 9223372036854775808 16 =
     \<lparr> hd_offset = 9223372036854775808, hd_length = 16, hd_hex_data = [], hd_ascii_data = [],
       hd_error = Some ''cannot fit 'int' into an offset-sized integer'' \<rparr>"
  by code_simp

section \<open>Properties of artifact classification\<close>





section \<open>Properties of the deletion signals\<close>









section \<open>Properties of schema extraction\<close>

lemma read_table_succeeds:
  "(\<exists>entry. read_table cursor row = Inr entry) \<longleftrightarrow>
     (\<exists>cols. exec_table_info cursor (''PRAGMA table_info('' @ mr_name row @ '')'') = Inr cols) \<and>
     (\<exists>c. exec_scalar cursor (''SELECT COUNT(*) FROM '' @ mr_name row) [] = Inr c)"
  by (auto simp: read_table_def Let_def split: sum.splits)

lemma read_table_sample_failure:
  assumes "read_table cursor row = Inr entry"
    and "exec_scalar cursor (''SELECT COUNT(*) FROM '' @ mr_name row) [] = Inr c"
    and "0 < c"
    and "exec_rows cursor (''SELECT * FROM '' @ mr_name row @ '' LIMIT 5'') [] = Inl err"
  shows "t_sample_rows entry = [] \<and> t_row_count entry = c"
  using assms by (auto simp: read_table_def Let_def split: sum.splits)

lemma table_loop_keys:
  "fst ` set (table_loop cursor rows tabs) =
     fst ` set tabs \<union>
     {mr_name row | row. row \<in> set rows \<and> \<not> startswith (mr_name row) ''sqlite_'' \<and>
                          (\<exists>entry. read_table cursor row = Inr entry)}"
proof (induction rows arbitrary: tabs)
  case Nil
  then show ?case by simp
next
  case (Cons row rows)
  show ?case
  proof (cases "startswith (mr_name row) ''sqlite_''")
    case True
    with Cons.IH [of tabs] show ?thesis by auto
  next
    case False
    show ?thesis
    proof (cases "read_table cursor row")
      case (Inl e)
      with False Cons.IH [of tabs] show ?thesis by auto
    next
      case (Inr entry)
      with False Cons.IH [of "AList.update (mr_name row) entry tabs"] show ?thesis
        by (auto simp: dom_update)
    qed
  qed
qed

lemma table_loop_other:
  "name \<notin> mr_name ` set rows \<Longrightarrow> map_of (table_loop cursor rows tabs) name = map_of tabs name"
proof (induction rows arbitrary: tabs)
  case Nil
  then show ?case by simp
next
  case (Cons row rows)
  then show ?case by (auto simp: update_conv' split: sum.splits)
qed

lemma table_loop_entry:
  assumes "distinct (map mr_name rows)" and "row \<in> set rows"
    and "\<not> startswith (mr_name row) ''sqlite_''" and "read_table cursor row = Inr entry"
  shows "map_of (table_loop cursor rows tabs) (mr_name row) = Some entry"
  using assms(1,2)
proof (induction rows arbitrary: tabs)
  case Nil
  then show ?case by simp
next
  case (Cons r rows)
  show ?case
  proof (cases "r = row")
    case True
    with Cons.prems(1) have "mr_name row \<notin> mr_name ` set rows" by auto
    from table_loop_other [OF this] True assms(3,4) show ?thesis
      by (simp add: update_conv')
  next
    case False
    with Cons.prems have "distinct (map mr_name rows)" and "row \<in> set rows" by auto
    from Cons.IH [OF this] show ?thesis by (simp split: sum.splits)
  qed
qed

lemma add_index_keeps:
  "fst ` set (add_index row tabs) = fst ` set tabs \<and>
   (map_of tabs k = Some entry \<longrightarrow>
      (\<exists>entry'. map_of (add_index row tabs) k = Some entry' \<and>
         t_sample_rows entry' = t_sample_rows entry \<and> t_row_count entry' = t_row_count entry))"
proof (cases "map_of tabs (mr_tbl_name row)")
  case None
  then show ?thesis by (simp add: add_index_def)
next
  case (Some owner)
  then have "mr_tbl_name row \<in> fst ` set tabs" by (force dest: map_of_SomeD)
  with Some show ?thesis by (auto simp: add_index_def dom_update update_conv')
qed

lemma add_trigger_keeps:
  "fst ` set (add_trigger row tabs) = fst ` set tabs \<and>
   (map_of tabs k = Some entry \<longrightarrow>
      (\<exists>entry'. map_of (add_trigger row tabs) k = Some entry' \<and>
         t_sample_rows entry' = t_sample_rows entry \<and> t_row_count entry' = t_row_count entry))"
proof (cases "map_of tabs (mr_tbl_name row)")
  case None
  then show ?thesis by (simp add: add_trigger_def)
next
  case (Some owner)
  then have "mr_tbl_name row \<in> fst ` set tabs" by (force dest: map_of_SomeD)
  with Some show ?thesis by (auto simp: add_trigger_def dom_update update_conv')
qed

lemma index_loop_result:
  "fst ` set (fst (index_loop rows tabs inds)) = fst ` set tabs \<and>
   (map_of tabs k = Some entry \<longrightarrow>
      (\<exists>entry'. map_of (fst (index_loop rows tabs inds)) k = Some entry' \<and>
         t_sample_rows entry' = t_sample_rows entry \<and> t_row_count entry' = t_row_count entry)) \<and>
   fst ` set (snd (index_loop rows tabs inds)) =
     fst ` set inds \<union> {mr_name row | row. row \<in> set rows \<and> \<not> startswith (mr_name row) ''sqlite_''}"
proof (induction rows arbitrary: tabs inds entry)
  case Nil
  then show ?case by simp
next
  case (Cons row rows)
  show ?case
  proof (cases "startswith (mr_name row) ''sqlite_''")
    case True
    with Cons.IH [of tabs inds entry] show ?thesis by auto
  next
    case False
    let ?tabs = "add_index row tabs"
    let ?inds = "AList.update (mr_name row) \<lparr> r_table = mr_tbl_name row, r_sql = mr_sql row \<rparr> inds"
    from add_index_keeps [of row tabs k entry]
    have keys: "fst ` set ?tabs = fst ` set tabs"
      and ent: "map_of tabs k = Some entry \<longrightarrow>
        (\<exists>e1. map_of ?tabs k = Some e1 \<and> t_sample_rows e1 = t_sample_rows entry \<and>
               t_row_count e1 = t_row_count entry)"
      by auto
    have step: "index_loop (row # rows) tabs inds = index_loop rows ?tabs ?inds"
      using False by simp
    have 1: "fst ` set (fst (index_loop rows ?tabs ?inds)) = fst ` set tabs"
      using Cons.IH [of ?tabs ?inds entry] keys by simp
    have 2: "map_of tabs k = Some entry \<longrightarrow>
      (\<exists>entry'. map_of (fst (index_loop rows ?tabs ?inds)) k = Some entry' \<and>
         t_sample_rows entry' = t_sample_rows entry \<and> t_row_count entry' = t_row_count entry)"
    proof
      assume "map_of tabs k = Some entry"
      with ent obtain e1 where e1: "map_of ?tabs k = Some e1"
        "t_sample_rows e1 = t_sample_rows entry" "t_row_count e1 = t_row_count entry"
        by blast
      from Cons.IH [of ?tabs ?inds e1] e1 show "\<exists>entry'.
          map_of (fst (index_loop rows ?tabs ?inds)) k = Some entry' \<and>
          t_sample_rows entry' = t_sample_rows entry \<and> t_row_count entry' = t_row_count entry"
        by auto
    qed
    have 3: "fst ` set (snd (index_loop rows ?tabs ?inds)) =
       fst ` set inds \<union>
       {mr_name r | r. r \<in> set (row # rows) \<and> \<not> startswith (mr_name r) ''sqlite_''}"
      using Cons.IH [of ?tabs ?inds entry] False by (auto simp: dom_update)
    from 1 2 3 show ?thesis unfolding step by blast
  qed
qed

lemma trigger_loop_result:
  "fst ` set (fst (trigger_loop rows tabs trigs)) = fst ` set tabs \<and>
   (map_of tabs k = Some entry \<longrightarrow>
      (\<exists>entry'. map_of (fst (trigger_loop rows tabs trigs)) k = Some entry' \<and>
         t_sample_rows entry' = t_sample_rows entry \<and> t_row_count entry' = t_row_count entry)) \<and>
   fst ` set (snd (trigger_loop rows tabs trigs)) = fst ` set trigs \<union> mr_name ` set rows"
proof (induction rows arbitrary: tabs trigs entry)
  case Nil
  then show ?case by simp
next
  case (Cons row rows)
  let ?tabs = "add_trigger row tabs"
  let ?trigs = "AList.update (mr_name row) \<lparr> r_table = mr_tbl_name row, r_sql = mr_sql row \<rparr> trigs"
  from add_trigger_keeps [of row tabs k entry]
  have keys: "fst ` set ?tabs = fst ` set tabs"
    and ent: "map_of tabs k = Some entry \<longrightarrow>
      (\<exists>e1. map_of ?tabs k = Some e1 \<and> t_sample_rows e1 = t_sample_rows entry \<and>
             t_row_count e1 = t_row_count entry)"
    by auto
  have step: "trigger_loop (row # rows) tabs trigs = trigger_loop rows ?tabs ?trigs"
    by simp
  have 1: "fst ` set (fst (trigger_loop rows ?tabs ?trigs)) = fst ` set tabs"
    using Cons.IH [of ?tabs ?trigs entry] keys by simp
  have 2: "map_of tabs k = Some entry \<longrightarrow>
    (\<exists>entry'. map_of (fst (trigger_loop rows ?tabs ?trigs)) k = Some entry' \<and>
       t_sample_rows entry' = t_sample_rows entry \<and> t_row_count entry' = t_row_count entry)"
  proof
    assume "map_of tabs k = Some entry"
    with ent obtain e1 where e1: "map_of ?tabs k = Some e1"
      "t_sample_rows e1 = t_sample_rows entry" "t_row_count e1 = t_row_count entry"
      by blast
    from Cons.IH [of ?tabs ?trigs e1] e1 show "\<exists>entry'.
        map_of (fst (trigger_loop rows ?tabs ?trigs)) k = Some entry' \<and>
        t_sample_rows entry' = t_sample_rows entry \<and> t_row_count entry' = t_row_count entry"
      by auto
  qed
  have 3: "fst ` set (snd (trigger_loop rows ?tabs ?trigs)) =
     fst ` set trigs \<union> mr_name ` set (row # rows)"
    using Cons.IH [of ?tabs ?trigs entry] by (auto simp: dom_update)
  from 1 2 3 show ?case unfolding step by blast
qed

text \<open>
  Claim C8. Let a connection be open or obtainable and the three catalog queries answer.
  Then extraction returns a catalog in which a table is present exactly when its name does
  not carry the \<open>sqlite_\<close> prefix and both its column query and its row count succeed: a
  table whose introspection fails is left out, whatever happens to the tables before and
  after it. A table that is introspected and has rows, but whose sample query fails, is in
  the catalog with an empty sample list. An index is in the index map exactly when its name
  does not carry the prefix; the trigger map holds every trigger name, prefixed or not.
\<close>

theorem extract_schema_isolation:
  assumes "connection self = Some cursor \<or> (connection self = None \<and> provider self = Some cursor)"
    and "exec_master cursor table_query [] = Inr table_rows"
    and "exec_master cursor index_query [] = Inr index_rows"
    and "exec_master cursor trigger_query [] = Inr trigger_rows"
    and "distinct (map mr_name table_rows)"
  shows
   "\<exists>catalog. fst (extract_schema self) = Inr (Some catalog) \<and>
      (\<forall>t. t \<in> fst ` set (tables catalog) \<longleftrightarrow>
         (\<exists>row \<in> set table_rows. mr_name row = t \<and> \<not> startswith t ''sqlite_'' \<and>
            (\<exists>cols. exec_table_info cursor (''PRAGMA table_info('' @ t @ '')'') = Inr cols) \<and>
            (\<exists>c. exec_scalar cursor (''SELECT COUNT(*) FROM '' @ t) [] = Inr c))) \<and>
      (\<forall>row \<in> set table_rows. \<forall>cols c err.
         \<not> startswith (mr_name row) ''sqlite_'' \<and>
         exec_table_info cursor (''PRAGMA table_info('' @ mr_name row @ '')'') = Inr cols \<and>
         exec_scalar cursor (''SELECT COUNT(*) FROM '' @ mr_name row) [] = Inr c \<and> 0 < c \<and>
         exec_rows cursor (''SELECT * FROM '' @ mr_name row @ '' LIMIT 5'') [] = Inl err
           \<longrightarrow> (\<exists>entry. map_of (tables catalog) (mr_name row) = Some entry \<and>
                  t_sample_rows entry = [] \<and> t_row_count entry = c)) \<and>
      (\<forall>i. i \<in> fst ` set (indices catalog) \<longleftrightarrow>
         (\<exists>row \<in> set index_rows. mr_name row = i \<and> \<not> startswith i ''sqlite_'')) \<and>
      fst ` set (triggers catalog) = mr_name ` set trigger_rows"
proof -
  define self1 where "self1 = (if connection self = None then snd (connect_to_db self) else self)"
  from assms(1) have c: "connection self1 = Some cursor"
    by (auto simp: self1_def connect_to_db_def)
  define tabs where "tabs = table_loop cursor table_rows []"
  obtain tabs1 inds where il: "index_loop index_rows tabs [] = (tabs1, inds)"
    by (cases "index_loop index_rows tabs []")
  obtain tabs2 trigs where tl: "trigger_loop trigger_rows tabs1 [] = (tabs2, trigs)"
    by (cases "trigger_loop trigger_rows tabs1 []")
  define catalog where "catalog = \<lparr> tables = tabs2, indices = inds, triggers = trigs \<rparr>"
  have result: "fst (extract_schema self) = Inr (Some catalog)"
    using c assms(2-4) il tl
    by (simp add: extract_schema_def Let_def self1_def [symmetric] tabs_def [symmetric] catalog_def)
  have keys0: "fst ` set tabs =
     {mr_name row | row. row \<in> set table_rows \<and> \<not> startswith (mr_name row) ''sqlite_'' \<and>
                          (\<exists>entry. read_table cursor row = Inr entry)}"
    using table_loop_keys [of cursor table_rows "[]"] by (simp add: tabs_def)
  have keys1: "fst ` set tabs1 = fst ` set tabs"
    using index_loop_result [of index_rows tabs "[]"] il by simp
  have keys2: "fst ` set tabs2 = fst ` set tabs1"
    using trigger_loop_result [of trigger_rows tabs1 "[]"] tl by simp
  have A: "t \<in> fst ` set (tables catalog) \<longleftrightarrow>
         (\<exists>row \<in> set table_rows. mr_name row = t \<and> \<not> startswith t ''sqlite_'' \<and>
            (\<exists>cols. exec_table_info cursor (''PRAGMA table_info('' @ t @ '')'') = Inr cols) \<and>
            (\<exists>c. exec_scalar cursor (''SELECT COUNT(*) FROM '' @ t) [] = Inr c))" for t
    unfolding catalog_def using keys0 keys1 keys2 read_table_succeeds [of cursor]
    by (simp add: set_eq_iff) blast
  have B: "\<exists>entry. map_of (tables catalog) (mr_name row) = Some entry \<and>
                  t_sample_rows entry = [] \<and> t_row_count entry = c"
    if row: "row \<in> set table_rows" and ni: "\<not> startswith (mr_name row) ''sqlite_''"
      and ti: "exec_table_info cursor (''PRAGMA table_info('' @ mr_name row @ '')'') = Inr cols"
      and cnt: "exec_scalar cursor (''SELECT COUNT(*) FROM '' @ mr_name row) [] = Inr c"
      and pos: "0 < c"
      and smp: "exec_rows cursor (''SELECT * FROM '' @ mr_name row @ '' LIMIT 5'') [] = Inl err"
    for row cols c err
  proof -
    from ti cnt read_table_succeeds [of cursor row]
    obtain e0 where e0: "read_table cursor row = Inr e0" by blast
    from read_table_sample_failure [OF e0 cnt pos smp]
    have s0: "t_sample_rows e0 = []" "t_row_count e0 = c" by simp_all
    have m0: "map_of tabs (mr_name row) = Some e0"
      unfolding tabs_def by (rule table_loop_entry [OF assms(5) row ni e0])
    from index_loop_result [of index_rows tabs "[]" "mr_name row" e0] il m0
    obtain e1 where e1: "map_of tabs1 (mr_name row) = Some e1"
      "t_sample_rows e1 = t_sample_rows e0" "t_row_count e1 = t_row_count e0"
      by auto
    from trigger_loop_result [of trigger_rows tabs1 "[]" "mr_name row" e1] tl e1(1)
    obtain e2 where e2: "map_of tabs2 (mr_name row) = Some e2"
      "t_sample_rows e2 = t_sample_rows e1" "t_row_count e2 = t_row_count e1"
      by auto
    from e2 e1 s0 show ?thesis by (simp add: catalog_def)
  qed
  have C: "i \<in> fst ` set (indices catalog) \<longleftrightarrow>
         (\<exists>row \<in> set index_rows. mr_name row = i \<and> \<not> startswith i ''sqlite_'')" for i
    using index_loop_result [of index_rows tabs "[]"] il
    by (simp add: catalog_def set_eq_iff) blast
  have D: "fst ` set (triggers catalog) = mr_name ` set trigger_rows"
    using trigger_loop_result [of trigger_rows tabs1 "[]"] tl by (simp add: catalog_def)
  from result A B C D show ?thesis by blast
qed

lemma damaged_engine_answers:
  "exec_master damaged_engine table_query [] =
     Inr [ \<lparr> mr_name = ''good'', mr_tbl_name = ''good'', mr_sql = Some ''CREATE TABLE good (id)'' \<rparr>,
           \<lparr> mr_name = ''bad'', mr_tbl_name = ''bad'', mr_sql = None \<rparr>,
           \<lparr> mr_name = ''sqlite_sequence'', mr_tbl_name = ''sqlite_sequence'', mr_sql = None \<rparr>,
           \<lparr> mr_name = ''later'', mr_tbl_name = ''later'', mr_sql = Some ''CREATE TABLE later (id)'' \<rparr> ]"
  "exec_master damaged_engine index_query [] =
     Inr [ \<lparr> mr_name = ''sqlite_autoindex_good_1'', mr_tbl_name = ''good'', mr_sql = None \<rparr>,
           \<lparr> mr_name = ''idx_good'', mr_tbl_name = ''good'', mr_sql = Some ''CREATE INDEX idx_good'' \<rparr> ]"
  "exec_master damaged_engine trigger_query [] =
     Inr [ \<lparr> mr_name = ''sqlite_trg'', mr_tbl_name = ''good'', mr_sql = Some ''CREATE TRIGGER sqlite_trg'' \<rparr> ]"
  by (simp_all add: damaged_engine_def table_query_def index_query_def trigger_query_def)

lemma pick_two: "S \<subseteq> {a, b, c, d} \<Longrightarrow> a \<in> S \<Longrightarrow> d \<in> S \<Longrightarrow> b \<notin> S \<Longrightarrow> c \<notin> S \<Longrightarrow> S = {a, d}"
  by auto

lemma pick_one: "S \<subseteq> {a, b} \<Longrightarrow> b \<in> S \<Longrightarrow> a \<notin> S \<Longrightarrow> S = {b}"
  by auto

theorem extract_schema_isolation_witness:
  "\<exists>catalog. fst (extract_schema damaged_parser) = Inr (Some catalog) \<and>
      fst ` set (tables catalog) = {''good'', ''later''} \<and>
      (\<exists>entry. map_of (tables catalog) ''good'' = Some entry \<and>
         t_sample_rows entry = [] \<and> t_row_count entry = 2) \<and>
      fst ` set (indices catalog) = {''idx_good''} \<and>
      fst ` set (triggers catalog) = {''sqlite_trg''}"
proof -
  define good where
    "good = \<lparr> mr_name = ''good'', mr_tbl_name = ''good'', mr_sql = Some ''CREATE TABLE good (id)'' \<rparr>"
  define trows where "trows =
     [ good,
       \<lparr> mr_name = ''bad'', mr_tbl_name = ''bad'', mr_sql = None \<rparr>,
       \<lparr> mr_name = ''sqlite_sequence'', mr_tbl_name = ''sqlite_sequence'', mr_sql = None \<rparr>,
       \<lparr> mr_name = ''later'', mr_tbl_name = ''later'', mr_sql = Some ''CREATE TABLE later (id)'' \<rparr> ]"
  define irows where "irows =
     [ \<lparr> mr_name = ''sqlite_autoindex_good_1'', mr_tbl_name = ''good'', mr_sql = None \<rparr>,
       \<lparr> mr_name = ''idx_good'', mr_tbl_name = ''good'', mr_sql = Some ''CREATE INDEX idx_good'' \<rparr> ]"
  define grows where "grows =
     [ \<lparr> mr_name = ''sqlite_trg'', mr_tbl_name = ''good'', mr_sql = Some ''CREATE TRIGGER sqlite_trg'' \<rparr> ]"
  have conn: "connection damaged_parser = Some damaged_engine \<or>
      (connection damaged_parser = None \<and> provider damaged_parser = Some damaged_engine)"
    by (simp add: damaged_parser_def init_parser_def)
  have q: "exec_master damaged_engine table_query [] = Inr trows"
    "exec_master damaged_engine index_query [] = Inr irows"
    "exec_master damaged_engine trigger_query [] = Inr grows"
    using damaged_engine_answers by (simp_all add: trows_def irows_def grows_def good_def)
  have dist: "distinct (map mr_name trows)"
    by (simp add: trows_def good_def)
  from extract_schema_isolation [OF conn q dist]
  obtain catalog where r: "fst (extract_schema damaged_parser) = Inr (Some catalog)"
    and A: "\<forall>t. t \<in> fst ` set (tables catalog) \<longleftrightarrow>
         (\<exists>row \<in> set trows. mr_name row = t \<and> \<not> startswith t ''sqlite_'' \<and>
            (\<exists>cols. exec_table_info damaged_engine (''PRAGMA table_info('' @ t @ '')'') = Inr cols) \<and>
            (\<exists>c. exec_scalar damaged_engine (''SELECT COUNT(*) FROM '' @ t) [] = Inr c))"
    and B: "\<forall>row \<in> set trows. \<forall>cols c err.
         \<not> startswith (mr_name row) ''sqlite_'' \<and>
         exec_table_info damaged_engine (''PRAGMA table_info('' @ mr_name row @ '')'') = Inr cols \<and>
         exec_scalar damaged_engine (''SELECT COUNT(*) FROM '' @ mr_name row) [] = Inr c \<and> 0 < c \<and>
         exec_rows damaged_engine (''SELECT * FROM '' @ mr_name row @ '' LIMIT 5'') [] = Inl err
           \<longrightarrow> (\<exists>entry. map_of (tables catalog) (mr_name row) = Some entry \<and>
                  t_sample_rows entry = [] \<and> t_row_count entry = c)"
    and C: "\<forall>i. i \<in> fst ` set (indices catalog) \<longleftrightarrow>
         (\<exists>row \<in> set irows. mr_name row = i \<and> \<not> startswith i ''sqlite_'')"
    and D: "fst ` set (triggers catalog) = mr_name ` set grows"
    by (elim exE conjE) 
  have sub: "fst ` set (tables catalog) \<subseteq> {''good'', ''bad'', ''sqlite_sequence'', ''later''}"
  proof
    fix t
    assume "t \<in> fst ` set (tables catalog)"
    with A have "\<exists>row \<in> set trows. mr_name row = t" by blast
    then show "t \<in> {''good'', ''bad'', ''sqlite_sequence'', ''later''}"
      by (auto simp: trows_def good_def)
  qed
  have in1: "''good'' \<in> fst ` set (tables catalog)"
    unfolding A [rule_format] trows_def good_def by (simp add: startswith_def damaged_engine_def)
  have in2: "''later'' \<in> fst ` set (tables catalog)"
    unfolding A [rule_format] trows_def good_def by (simp add: startswith_def damaged_engine_def)
  have out1: "''bad'' \<notin> fst ` set (tables catalog)"
    unfolding A [rule_format] trows_def good_def by (simp add: startswith_def damaged_engine_def)
  have out2: "''sqlite_sequence'' \<notin> fst ` set (tables catalog)"
    unfolding A [rule_format] trows_def good_def by (simp add: startswith_def damaged_engine_def)
  have t: "fst ` set (tables catalog) = {''good'', ''later''}"
    by (rule pick_two [OF sub in1 in2 out1 out2])
  have "good \<in> set trows" by (simp add: trows_def)
  from B [rule_format, OF this, of _ 2]
  have s: "\<exists>entry. map_of (tables catalog) ''good'' = Some entry \<and>
         t_sample_rows entry = [] \<and> t_row_count entry = 2"
    by (simp add: good_def startswith_def damaged_engine_def)
  have isub: "fst ` set (indices catalog) \<subseteq> {''sqlite_autoindex_good_1'', ''idx_good''}"
  proof
    fix i
    assume "i \<in> fst ` set (indices catalog)"
    with C have "\<exists>row \<in> set irows. mr_name row = i" by blast
    then show "i \<in> {''sqlite_autoindex_good_1'', ''idx_good''}"
      by (auto simp: irows_def)
  qed
  have iin: "''idx_good'' \<in> fst ` set (indices catalog)"
    unfolding C [rule_format] irows_def by (simp add: startswith_def)
  have iout: "''sqlite_autoindex_good_1'' \<notin> fst ` set (indices catalog)"
    unfolding C [rule_format] irows_def by (simp add: startswith_def)
  have i: "fst ` set (indices catalog) = {''idx_good''}"
    by (rule pick_one [OF isub iin iout])
  have g: "fst ` set (triggers catalog) = {''sqlite_trg''}"
    unfolding D grows_def by simp
  from r t s i g show ?thesis by (intro exI [of _ catalog] conjI)
qed

section \<open>Properties of table browsing\<close>






end
